theory Spec2Isabelle
  imports Main "HOL-Library.Extended_Nat"
begin

section \<open>The update queue of the table controller\<close>

text \<open>
  The numbers that reach \<open>RenTableElement.update\<close> are positions of rows and cells:
  integers from 0 up to \<open>2 ^ 53\<close>, which a double holds exactly and \<open>String(x)\<close> prints
  digit by digit, or \<open>Number.POSITIVE_INFINITY\<close> (the default of both ends, and the start
  column computed from a batch of header mutations without elements). They are modelled
  as \<open>enat\<close>, and \<open>String_num\<close> is \<open>String(x)\<close> on such a number.

  \<open>Number_str\<close> is \<open>Number(s)\<close> on the strings the program builds from them. A string
  of decimal digits denotes the double nearest to the number the digits write
  (\<open>to_double\<close>: 53 significant bits, a tie goes to the even neighbour, and from
  \<open>2 ^ 1024\<close> on the result is Infinity; a number of at most 15 digits is below
  \<open>2 ^ 53\<close> and is its own double); the word Infinity alone denotes Infinity; any
  other string, such as the word Infinity next to digits, is NaN, written \<open>None\<close>.
\<close>

definition digit_char :: "nat \<Rightarrow> char" where
  "digit_char d = char_of (48 + d)"

fun digits :: "nat \<Rightarrow> string" where
  "digits n = (if n < 10 then [digit_char n] else digits (n div 10) @ [digit_char (n mod 10)])"

declare digits.simps [simp del]

definition String_num :: "enat \<Rightarrow> string" where
  "String_num x = (case x of enat n \<Rightarrow> digits n | \<infinity> \<Rightarrow> ''Infinity'')"

definition is_digit :: "char \<Rightarrow> bool" where
  "is_digit c = (48 \<le> (of_char c :: nat) \<and> (of_char c :: nat) \<le> 57)"

definition digit_val :: "char \<Rightarrow> nat" where
  "digit_val c = of_char c - 48"

fun bit_length :: "nat \<Rightarrow> nat" where
  "bit_length n = (if n = 0 then 0 else Suc (bit_length (n div 2)))"

declare bit_length.simps [simp del]

definition to_double :: "nat \<Rightarrow> enat" where
  "to_double n =
     (if n < 2 ^ 53 then enat n
      else (let ulp = 2 ^ (bit_length n - 53);
                q = n div ulp;
                r = n mod ulp;
                m = (if ulp < 2 * r \<or> (2 * r = ulp \<and> odd q) then Suc q else q)
            in if 2 ^ 1024 \<le> m * ulp then \<infinity> else enat (m * ulp)))"

definition Number_str :: "string \<Rightarrow> enat option" where
  "Number_str s =
     (if s \<noteq> [] \<and> list_all is_digit s
      then (let n = foldl (\<lambda>a c. 10 * a + digit_val c) 0 s
            in Some (if length s \<le> 15 then enat n else to_double n))
      else if s = ''Infinity'' then Some \<infinity>
      else None)"

text \<open>\<open>a > b\<close> on two numbers of which either may be NaN: false as soon as one is.\<close>

definition js_gt :: "enat option \<Rightarrow> enat option \<Rightarrow> bool" where
  "js_gt a b = (case (a, b) of (Some x, Some y) \<Rightarrow> x > y | _ \<Rightarrow> False)"

record region =
  row_start :: enat
  column_start :: enat
  row_end :: enat
  column_end :: enat

section \<open>The document: header cells, body cells, the table\<close>

text \<open>
  The JavaScript values that rows of data hold and that handlers return. The program
  does two things with such a value: it converts it to a string and it tests whether it
  is truthy. A number is therefore given by the text \<open>String\<close> prints for it (\<open>30\<close>,
  \<open>0.5\<close>, \<open>1e+21\<close>, \<open>NaN\<close>), and an object or a function by the text \<open>String\<close>
  prints for it.
\<close>

datatype jsval =
  JUndefined | JNull | JBool bool | JNum string | JStr string | JObject string

text \<open>
  What a body cell shows after a render: text (\<open>textContent\<close> was assigned), an image
  child with the given \<open>src\<close>, or the text of the progress renderer, whose number
  \<open>Math.round(100 * value / max)\<close> is floating-point arithmetic and is kept as the two
  operands it is computed from.
\<close>

datatype content = Text string | Img string | Percent jsval jsval

text \<open>
  A cell of the header row: \<open>is_ren_th\<close> tells a \<open>ren-th\<close> element, which has the
  \<open>type\<close> and \<open>name\<close> properties, from a plain \<open>th\<close> or \<open>td\<close>, which has neither. An
  attribute that is not set reads as null (\<open>None\<close>).
\<close>

record th_elem =
  is_ren_th :: bool
  type_attr :: "string option"
  name_attr :: "string option"
  th_max_attr :: "string option"

text \<open>A cell of a body row, with its attributes and what it shows: \<open>is_ren_td\<close> tells
  a \<open>ren-td\<close> element, which has the methods and properties of \<open>RenCellElement\<close>, from
  a plain \<open>td\<close> or \<open>th\<close>, which has none of them.\<close>

record td_elem =
  is_ren_td :: bool
  value_attr :: "string option"
  max_attr :: "string option"
  shown :: content

text \<open>
  The table element: \<open>tHead\<close> is the header section (null when the table has none),
  given by its rows, each a list of header cells; \<open>tBodies\<close> are the row groups, each a
  list of rows, each the list of the row's cells. With them, the fields of
  \<open>RenTableElement\<close>: the queue \<open>update_regions\<close>, the handle \<open>update_handle\<close>
  (\<open>None\<close> is null), and the host's side of \<open>setTimeout\<close>: the identifiers of the
  pending calls of \<open>_update\<close> and the next identifier to hand out.
\<close>

record ren_table =
  tHead :: "th_elem list list option"
  tBodies :: "td_elem list list list"
  update_regions :: "region list"
  update_handle :: "nat option"
  timers :: "nat list"
  next_timer :: nat

definition constructor :: "th_elem list list option \<Rightarrow> td_elem list list list \<Rightarrow> ren_table" where
  "constructor h bs =
     \<lparr>tHead = h, tBodies = bs, update_regions = [], update_handle = None,
      timers = [], next_timer = 1\<rparr>"

section \<open>Scheduling: \<open>update\<close>\<close>

text \<open>\<open>this.update_handle ??= setTimeout(this._update.bind(this), 0)\<close>: the right-hand
  side runs only when the handle is null.\<close>

definition schedule :: "ren_table \<Rightarrow> ren_table" where
  "schedule t =
     (case update_handle t of
        Some h \<Rightarrow> t
      | None \<Rightarrow> t\<lparr>update_handle := Some (next_timer t),
                 timers := timers t @ [next_timer t],
                 next_timer := Suc (next_timer t)\<rparr>)"

definition weight :: "region \<Rightarrow> enat option" where
  "weight r = Number_str (String_num (row_start r) @ String_num (column_start r))"

text \<open>The loop of \<open>update\<close> over the queue: the entry is spliced in before the first
  region whose weight is greater than its own, and pushed at the end when there is none.\<close>

fun splice_entry :: "enat option \<Rightarrow> region \<Rightarrow> region list \<Rightarrow> region list" where
  "splice_entry w entry [] = [entry]"
| "splice_entry w entry (r # rs) =
     (if js_gt (weight r) w then entry # r # rs else r # splice_entry w entry rs)"

definition update :: "enat \<Rightarrow> enat \<Rightarrow> enat \<Rightarrow> enat \<Rightarrow> ren_table \<Rightarrow> ren_table" where
  "update rs cs re ce t =
     (let entry = \<lparr>row_start = rs, column_start = cs, row_end = re, column_end = ce\<rparr>;
          w = weight entry
      in schedule (t\<lparr>update_regions := splice_entry w entry (update_regions t)\<rparr>))"

text \<open>A sequence of calls \<open>update(row_start, column_start, row_end, column_end)\<close>, first
  call first.\<close>

fun run_updates :: "(enat \<times> enat \<times> enat \<times> enat) list \<Rightarrow> ren_table \<Rightarrow> ren_table" where
  "run_updates [] t = t"
| "run_updates ((rs, cs, re, ce) # calls) t = run_updates calls (update rs cs re ce t)"

section \<open>The deferred render pass: \<open>_update\<close>\<close>

text \<open>The \<open>while\<close> loop at the start of each row: regions are shifted off the head of
  the queue as long as the head's \<open>row_end\<close> is at or before the row.\<close>

fun shift_passed :: "nat \<Rightarrow> region list \<Rightarrow> region list" where
  "shift_passed row_idx [] = []"
| "shift_passed row_idx (r # rs) =
     (if row_end r \<le> enat row_idx then shift_passed row_idx rs else r # rs)"

text \<open>The \<open>for (let region of this.update_regions)\<close> loop for one cell: it stops without
  an update at the first region whose \<open>row_start\<close> is beyond the row, and with one call
  of the cell's \<open>update()\<close> at the first region whose columns hold the cell.\<close>

fun cell_hit :: "nat \<Rightarrow> nat \<Rightarrow> region list \<Rightarrow> bool" where
  "cell_hit row_idx cell_idx [] = False"
| "cell_hit row_idx cell_idx (r # rs) =
     (if row_start r > enat row_idx then False
      else if column_start r \<le> enat cell_idx \<and> enat cell_idx < column_end r then True
      else cell_hit row_idx cell_idx rs)"

datatype error = TypeError

text \<open>
  The loop over the cells of one row, from \<open>cell_idx\<close> on: the calls
  \<open>cells[cell_idx].update()\<close> made, from left to right, each as (row, cell). Only a
  \<open>ren-td\<close> has the method \<open>update\<close>: on any other cell the call throws a TypeError,
  which ends the loop, and the whole pass.
\<close>

fun cells_loop ::
  "nat \<Rightarrow> nat \<Rightarrow> td_elem list \<Rightarrow> region list \<Rightarrow> (nat \<times> nat) list \<times> error option" where
  "cells_loop row_idx cell_idx [] q = ([], None)"
| "cells_loop row_idx cell_idx (cell # cells) q =
     (if cell_hit row_idx cell_idx q
      then (if is_ren_td cell
            then (case cells_loop row_idx (Suc cell_idx) cells q of
                    (calls, e) \<Rightarrow> ((row_idx, cell_idx) # calls, e))
            else ([], Some TypeError))
      else cells_loop row_idx (Suc cell_idx) cells q)"

text \<open>The loop over the rows, from \<open>row_idx\<close> on, with the rows still to visit and the
  queue as it stands: \<open>break\<close> when the queue is empty, \<open>continue\<close> when the head has
  not started yet. The result is the queue as the loop leaves it, the calls made, and the
  error if one was thrown.\<close>

fun sweep ::
  "nat \<Rightarrow> td_elem list list \<Rightarrow> region list
     \<Rightarrow> region list \<times> (nat \<times> nat) list \<times> error option" where
  "sweep row_idx [] q = (q, [], None)"
| "sweep row_idx (row # rows) q =
     (let q' = shift_passed row_idx q in
      case q' of
        [] \<Rightarrow> ([], [], None)
      | r # rs \<Rightarrow>
          if row_start r > enat row_idx then sweep (Suc row_idx) rows q'
          else (case cells_loop row_idx 0 row q' of
                  (calls, Some e) \<Rightarrow> (q', calls, Some e)
                | (calls, None) \<Rightarrow>
                    (case sweep (Suc row_idx) rows q' of
                       (q'', calls', e) \<Rightarrow> (q'', calls @ calls', e))))"

text \<open>
  \<open>_update\<close> (a name cannot start with an underscore here): the handle is reset, the
  rows of all row groups are flattened, the sweep runs, and the queue is emptied after
  it. When a call in the sweep throws, the assignment that empties the queue is not
  reached: the table is left with the handle reset and the queue as the sweep has
  shifted it. The result is how the pass ended, with the table as it is then, and the
  calls \<open>cells[cell_idx].update()\<close> the pass made, in order, each as (index of the row
  in the flattened sequence, index of the cell in its row). Taking the fired timer off
  the pending ones is the host's step, not this function's.
\<close>

datatype outcome = Completed ren_table | Thrown error ren_table

definition update_deferred :: "ren_table \<Rightarrow> outcome \<times> (nat \<times> nat) list" where
  "update_deferred t =
     (case sweep 0 (concat (tBodies t)) (update_regions t) of
        (q, calls, None) \<Rightarrow>
          (Completed (t\<lparr>update_handle := None, update_regions := []\<rparr>), calls)
      | (q, calls, Some e) \<Rightarrow>
          (Thrown e (t\<lparr>update_handle := None, update_regions := q\<rparr>), calls))"

definition table_after :: "outcome \<Rightarrow> ren_table" where
  "table_after r = (case r of Completed t \<Rightarrow> t | Thrown e t \<Rightarrow> t)"

section \<open>Header lookup and the type of a body cell\<close>

text \<open>\<open>RenTableElement.header_row\<close>: \<open>this.tHead.querySelector('tr')\<close>. Reading
  \<open>querySelector\<close> of a null \<open>tHead\<close> throws; a header section with no row gives
  null.\<close>

definition header_row :: "ren_table \<Rightarrow> error + th_elem list option" where
  "header_row t =
     (case tHead t of
        None \<Rightarrow> Inl TypeError
      | Some trs \<Rightarrow> Inr (case trs of [] \<Rightarrow> None | tr # _ \<Rightarrow> Some tr))"

text \<open>An index into a JavaScript array or collection: undefined (\<open>None\<close>) out of range.\<close>

definition at_index :: "'a list \<Rightarrow> nat \<Rightarrow> 'a option" where
  "at_index xs i = (if i < length xs then Some (xs ! i) else None)"

text \<open>\<open>RenTableElement.header(idx)\<close> for a given \<open>idx\<close>, as a body cell calls it:
  \<open>children[idx]\<close> of a null row throws, an index past the last header cell gives
  undefined.\<close>

definition header :: "ren_table \<Rightarrow> nat \<Rightarrow> error + th_elem option" where
  "header t idx =
     (case tHead t of
        None \<Rightarrow> Inl TypeError
      | Some trs \<Rightarrow>
          (case trs of
             [] \<Rightarrow> Inl TypeError
           | tr # _ \<Rightarrow> Inr (at_index tr idx)))"

text \<open>\<open>th.type\<close> and \<open>th.name\<close> of a cell of the header row: the getters of
  \<open>RenHeaderElement\<close>, and undefined (\<open>None\<close>) on a cell that is no \<open>ren-th\<close>. A name
  that is null and one that is undefined are both \<open>None\<close>: the code tests \<open>k != null\<close>,
  which holds for neither.\<close>

definition th_type :: "th_elem \<Rightarrow> string option" where
  "th_type th =
     (if is_ren_th th
      then Some (case type_attr th of None \<Rightarrow> ''text'' | Some ty \<Rightarrow> ty)
      else None)"

definition th_name :: "th_elem \<Rightarrow> string option" where
  "th_name th = (if is_ren_th th then name_attr th else None)"

text \<open>\<open>RenCellElement.header\<close> and \<open>RenCellElement.type\<close> of the body cell at index
  \<open>idx\<close> of a row of table \<open>t\<close>: \<open>this.table?.header(this.index)\<close>, then
  \<open>this.header.type ?? 'text'\<close>, where \<open>.type\<close> of an undefined header throws.\<close>

definition td_header :: "ren_table \<Rightarrow> nat \<Rightarrow> error + th_elem option" where
  "td_header t idx = header t idx"

definition td_type :: "ren_table \<Rightarrow> nat \<Rightarrow> error + string" where
  "td_type t idx =
     (case td_header t idx of
        Inl e \<Rightarrow> Inl e
      | Inr None \<Rightarrow> Inl TypeError
      | Inr (Some th) \<Rightarrow> Inr (case th_type th of None \<Rightarrow> ''text'' | Some ty \<Rightarrow> ty))"

section \<open>The registries and the built-in handlers\<close>

text \<open>
  The three registries are object literals used as dictionaries from type name to
  function. A registry is given here by the map of its own properties, and a function
  that reads one takes it as an argument, since \<open>add_renderer\<close> and the like change them
  at any time; the maps \<open>renderers\<close>, \<open>exporters\<close> and \<open>importers\<close> below are the
  registries as the script first sets them.

  Reading \<open>registry[key]\<close> gives the registry's own property of that name, or else the
  property that every object inherits from \<open>Object.prototype\<close>, or else undefined. The
  inherited properties are eleven functions and the accessor \<open>__proto__\<close>, whose value is
  \<open>Object.prototype\<close> itself; none of them is null and all of them are truthy.
\<close>

definition Object_prototype :: "string list" where
  "Object_prototype =
     [''constructor'', ''__defineGetter__'', ''__defineSetter__'', ''hasOwnProperty'',
      ''__lookupGetter__'', ''__lookupSetter__'', ''isPrototypeOf'',
      ''propertyIsEnumerable'', ''toString'', ''valueOf'', ''__proto__'',
      ''toLocaleString'']"

datatype 'f property = Own 'f | Inherited string

definition get_handler :: "(string \<rightharpoonup> 'f) \<Rightarrow> string \<Rightarrow> 'f property option" where
  "get_handler registry key =
     (case registry key of
        Some f \<Rightarrow> Some (Own f)
      | None \<Rightarrow> if key \<in> set Object_prototype then Some (Inherited key) else None)"

text \<open>
  Calling an inherited property as the code calls a handler, \<open>f(x)\<close> with no receiver.
  \<open>constructor\<close> is \<open>Object\<close>, and \<open>Object(x)\<close> returns \<open>x\<close> itself when \<open>x\<close> is an
  object, an empty object when \<open>x\<close> is null or undefined, and otherwise a wrapper that
  prints as \<open>x\<close> does. \<open>toString\<close> returns the tag of its undefined receiver.
  \<open>isPrototypeOf\<close> returns false for an argument that is no object. In every other
  case the function converts its undefined receiver to an object, which throws; and the
  value of \<open>__proto__\<close> is no function, so that calling it throws. The argument is a cell
  (an object) for a renderer or an exporter, and a value of the data for an importer.
\<close>

definition call_inherited :: "string \<Rightarrow> jsval \<Rightarrow> error + jsval" where
  "call_inherited name x =
     (if name = ''constructor''
      then Inr (case x of
                  JUndefined \<Rightarrow> JObject ''[object Object]''
                | JNull \<Rightarrow> JObject ''[object Object]''
                | JBool b \<Rightarrow> JObject (if b then ''true'' else ''false'')
                | JNum s \<Rightarrow> JObject s
                | JStr s \<Rightarrow> JObject s
                | JObject s \<Rightarrow> JObject s)
      else if name = ''toString'' then Inr (JStr ''[object Undefined]'')
      else if name = ''isPrototypeOf''
      then (case x of JObject s \<Rightarrow> Inl TypeError | _ \<Rightarrow> Inr (JBool False))
      else Inl TypeError)"

text \<open>A cell as the argument of such a call: an object, which prints as its class.\<close>

definition cell_object :: jsval where
  "cell_object = JObject ''[object HTMLTableCellElement]''"

text \<open>\<open>td.value\<close> of a \<open>ren-td\<close> as a JavaScript value: the attribute's string, or
  null.\<close>

definition td_value :: "td_elem \<Rightarrow> jsval" where
  "td_value td = (case value_attr td of None \<Rightarrow> JNull | Some v \<Rightarrow> JStr v)"

text \<open>Assigning \<open>textContent\<close>: null shows as the empty text.\<close>

definition set_textContent :: "string option \<Rightarrow> td_elem \<Rightarrow> td_elem" where
  "set_textContent v td = td\<lparr>shown := Text (case v of None \<Rightarrow> [] | Some s \<Rightarrow> s)\<rparr>"

text \<open>The two glyphs of the check renderer, U+1F5F8 and U+1F7A9, in UTF-8.\<close>

definition check_mark :: string where
  "check_mark = [CHR 0xF0, CHR 0x9F, CHR 0x97, CHR 0xB8]"

definition cross_mark :: string where
  "cross_mark = [CHR 0xF0, CHR 0x9F, CHR 0x9E, CHR 0xA9]"

text \<open>The expression \<open>td.getAttribute('max') ?? td.header?.getAttribute('max') ?? 100\<close>
  of the progress renderer and exporter.\<close>

definition progress_max :: "ren_table \<Rightarrow> nat \<Rightarrow> td_elem \<Rightarrow> error + jsval" where
  "progress_max t idx td =
     (case max_attr td of
        Some m \<Rightarrow> Inr (JStr m)
      | None \<Rightarrow>
          (case td_header t idx of
             Inl e \<Rightarrow> Inl e
           | Inr None \<Rightarrow> Inr (JNum ''100'')
           | Inr (Some th) \<Rightarrow>
               Inr (case th_max_attr th of None \<Rightarrow> JNum ''100'' | Some m \<Rightarrow> JStr m)))"

text \<open>A renderer gets the cell (here with its table and its index in the row) and leaves
  the cell changed, or throws.\<close>

type_synonym renderer = "ren_table \<Rightarrow> nat \<Rightarrow> td_elem \<Rightarrow> error + td_elem"

definition render_text :: renderer where
  "render_text t idx td = Inr (set_textContent (value_attr td) td)"

definition render_check :: renderer where
  "render_check t idx td =
     (let v = (case value_attr td of None \<Rightarrow> [] | Some s \<Rightarrow> s)
      in Inr (set_textContent (Some (if v \<noteq> [] then check_mark else cross_mark)) td))"

definition render_progress :: renderer where
  "render_progress t idx td =
     (case progress_max t idx td of
        Inl e \<Rightarrow> Inl e
      | Inr m \<Rightarrow> Inr (td\<lparr>shown := Percent (td_value td) m\<rparr>))"

definition render_img :: renderer where
  "render_img t idx td =
     Inr (td\<lparr>shown := Img (case value_attr td of None \<Rightarrow> ''null'' | Some s \<Rightarrow> s)\<rparr>)"

definition renderers :: "string \<rightharpoonup> renderer" where
  "renderers =
     [''text'' \<mapsto> render_text, ''check'' \<mapsto> render_check,
      ''progress'' \<mapsto> render_progress, ''img'' \<mapsto> render_img]"

text \<open>What \<open>to_array\<close> returns for a cell: a JavaScript value, or the number
  \<open>Number(a) / Number(b)\<close> of the progress exporter, a floating-point quotient that is
  kept as its two operands.\<close>

datatype exported = Value jsval | Ratio jsval jsval

type_synonym exporter = "ren_table \<Rightarrow> nat \<Rightarrow> td_elem \<Rightarrow> error + exported"

definition export_check :: exporter where
  "export_check t idx td =
     Inr (Value (JBool (case value_attr td of None \<Rightarrow> False | Some v \<Rightarrow> v \<noteq> [])))"

definition export_progress :: exporter where
  "export_progress t idx td =
     (case progress_max t idx td of
        Inl e \<Rightarrow> Inl e
      | Inr m \<Rightarrow> Inr (Ratio (td_value td) m))"

definition exporters :: "string \<rightharpoonup> exporter" where
  "exporters = [''check'' \<mapsto> export_check, ''progress'' \<mapsto> export_progress]"

text \<open>Truthiness and \<open>String(v)\<close>. The numbers that are not truthy are 0, which
  prints as \<open>0\<close> whatever its sign, and NaN.\<close>

definition truthy :: "jsval \<Rightarrow> bool" where
  "truthy v =
     (case v of
        JUndefined \<Rightarrow> False | JNull \<Rightarrow> False | JBool b \<Rightarrow> b
      | JNum s \<Rightarrow> s \<noteq> ''0'' \<and> s \<noteq> ''NaN'' | JStr s \<Rightarrow> s \<noteq> []
      | JObject s \<Rightarrow> True)"

definition String_js :: "jsval \<Rightarrow> string" where
  "String_js v =
     (case v of
        JUndefined \<Rightarrow> ''undefined'' | JNull \<Rightarrow> ''null''
      | JBool b \<Rightarrow> (if b then ''true'' else ''false'')
      | JNum s \<Rightarrow> s
      | JStr s \<Rightarrow> s
      | JObject s \<Rightarrow> s)"

text \<open>\<open>a ?? b\<close>.\<close>

definition nullish_or :: "jsval \<Rightarrow> jsval \<Rightarrow> jsval" where
  "nullish_or a b = (case a of JUndefined \<Rightarrow> b | JNull \<Rightarrow> b | _ \<Rightarrow> a)"

type_synonym importer = "jsval \<Rightarrow> jsval"

definition import_check :: importer where
  "import_check v = JStr (if truthy v then ''1'' else [])"

definition import_progress :: importer where
  "import_progress v = JStr (String_js (nullish_or v (JStr ''0'')))"

definition importers :: "string \<rightharpoonup> importer" where
  "importers = [''check'' \<mapsto> import_check, ''progress'' \<mapsto> import_progress]"

section \<open>Rendering one body cell: \<open>RenCellElement._update\<close>\<close>

text \<open>The diagnostic of \<open>console.warn\<close>, with the type it names.\<close>

datatype warning = No_renderer_for string

text \<open>
  The deferred render of the \<open>ren-td\<close> cell \<open>td\<close> at index \<open>idx\<close> of a row of table
  \<open>t\<close>, with the own properties of the registry of renderers and the console as they
  stand. \<open>renderer != null\<close> holds for a registered renderer and for an inherited
  property alike; calling the latter renders nothing when it returns. The cell's own
  pending flag is not part of the model.
\<close>

definition td_update_deferred ::
  "(string \<rightharpoonup> renderer) \<Rightarrow> ren_table \<Rightarrow> nat \<Rightarrow> td_elem \<Rightarrow> warning list
     \<Rightarrow> error + td_elem \<times> warning list" where
  "td_update_deferred reg t idx td console =
     (case td_type t idx of
        Inl e \<Rightarrow> Inl e
      | Inr ty \<Rightarrow>
          (case get_handler reg ty of
             Some (Own renderer) \<Rightarrow>
               (case renderer t idx td of
                  Inl e \<Rightarrow> Inl e
                | Inr td' \<Rightarrow> Inr (td', console))
           | Some (Inherited name) \<Rightarrow>
               (case call_inherited name cell_object of
                  Inl e \<Rightarrow> Inl e
                | Inr v \<Rightarrow> Inr (td, console))
           | None \<Rightarrow>
               Inr (set_textContent (value_attr td) td, console @ [No_renderer_for ty])))"

section \<open>Import and export: \<open>clear\<close>, \<open>from\<close>, \<open>to_array\<close>\<close>

text \<open>
  \<open>clear\<close> is \<open>for (let tbody of this.tBodies) tbody.remove()\<close>. \<open>tBodies\<close> is a live
  collection and the loop reads it by position: each step takes the element at the next
  index of the collection as it is then, after the removals made so far, and stops when
  the index reaches the collection's length.
\<close>

function clear_loop :: "nat \<Rightarrow> 'a list \<Rightarrow> 'a list" where
  "clear_loop i bodies =
     (if i < length bodies
      then clear_loop (Suc i) (take i bodies @ drop (Suc i) bodies)
      else bodies)"
  by pat_completeness auto
termination
  by (relation "measure (\<lambda>(i, bodies). length bodies - i)") auto

declare clear_loop.simps [simp del]

definition clear :: "ren_table \<Rightarrow> ren_table" where
  "clear t = t\<lparr>tBodies := clear_loop 0 (tBodies t)\<rparr>"

text \<open>
  A row of the data given to \<open>from\<close>: an array without holes, or an object. An object
  is given by what \<open>row[k]\<close> evaluates to for each key \<open>k\<close>: the value of the property of
  that name, the object's own or the one it inherits, and \<open>None\<close> when it has neither.
\<close>

datatype row_data = ArrayRow "jsval list" | ObjectRow "string \<rightharpoonup> jsval"

text \<open>\<open>document.createElement('td', {is: 'ren-td'})\<close>, and \<open>td.value = v\<close>, which sets
  the attribute to \<open>String(v)\<close>.\<close>

definition createElement_td :: td_elem where
  "createElement_td =
     \<lparr>is_ren_td = True, value_attr = None, max_attr = None, shown = Text []\<rparr>"

definition set_value :: "jsval \<Rightarrow> td_elem \<Rightarrow> td_elem" where
  "set_value v td = td\<lparr>value_attr := Some (String_js v)\<rparr>"

text \<open>\<open>RenTableElement.importers[column_types[idx]]\<close>: the type of a column past the
  header, or of a header cell without the property, is undefined, and the registry is then
  read at the key \<open>undefined\<close>.\<close>

definition property_key :: "string option \<Rightarrow> string" where
  "property_key k = (case k of None \<Rightarrow> ''undefined'' | Some s \<Rightarrow> s)"

definition importer_for ::
  "(string \<rightharpoonup> importer) \<Rightarrow> string option list \<Rightarrow> nat \<Rightarrow> importer property option" where
  "importer_for imps column_types idx =
     get_handler imps
       (property_key (case at_index column_types idx of None \<Rightarrow> None | Some ty \<Rightarrow> ty))"

text \<open>The value stored for the raw value \<open>v\<close> where \<open>importer\<close> was read from the
  registry: \<open>importer(v)\<close> if it is truthy, as every property read is, and \<open>v ?? ''\<close> if
  it is undefined.\<close>

definition imported_value :: "importer property option \<Rightarrow> jsval \<Rightarrow> error + jsval" where
  "imported_value importer v =
     (case importer of
        Some (Own f) \<Rightarrow> Inr (f v)
      | Some (Inherited name) \<Rightarrow> call_inherited name v
      | None \<Rightarrow> Inr (nullish_or v (JStr [])))"

text \<open>The cell made for position \<open>idx\<close> of an array row holding \<open>v\<close> there.\<close>

definition import_array_cell ::
  "(string \<rightharpoonup> importer) \<Rightarrow> string option list \<Rightarrow> nat \<Rightarrow> jsval \<Rightarrow> error + td_elem" where
  "import_array_cell imps column_types idx v =
     (case imported_value (importer_for imps column_types idx) v of
        Inl e \<Rightarrow> Inl e
      | Inr x \<Rightarrow> Inr (set_value x createElement_td))"

text \<open>\<open>row[k]\<close> on an object row.\<close>

definition get_property :: "(string \<rightharpoonup> jsval) \<Rightarrow> string \<Rightarrow> jsval" where
  "get_property row k = (case row k of None \<Rightarrow> JUndefined | Some v \<Rightarrow> v)"

text \<open>The cell made for column \<open>idx\<close> of an object row, \<open>k\<close> being
  \<open>column_names[idx]\<close>.\<close>

definition import_object_cell ::
  "(string \<rightharpoonup> importer) \<Rightarrow> string option list \<Rightarrow> (string \<rightharpoonup> jsval)
     \<Rightarrow> nat \<Rightarrow> string option \<Rightarrow> error + td_elem" where
  "import_object_cell imps column_types row idx k =
     (case k of
        None \<Rightarrow> Inr createElement_td
      | Some key \<Rightarrow>
          (case imported_value (importer_for imps column_types idx) (get_property row key) of
             Inl e \<Rightarrow> Inl e
           | Inr x \<Rightarrow> Inr (set_value x createElement_td)))"

text \<open>A loop whose body may throw: the first error ends it.\<close>

fun traverse :: "('a \<Rightarrow> error + 'b) \<Rightarrow> 'a list \<Rightarrow> error + 'b list" where
  "traverse f [] = Inr []"
| "traverse f (x # xs) =
     (case f x of
        Inl e \<Rightarrow> Inl e
      | Inr y \<Rightarrow> (case traverse f xs of Inl e \<Rightarrow> Inl e | Inr ys \<Rightarrow> Inr (y # ys)))"

definition import_row ::
  "(string \<rightharpoonup> importer) \<Rightarrow> string option list \<Rightarrow> string option list \<Rightarrow> row_data
     \<Rightarrow> error + td_elem list" where
  "import_row imps column_names column_types row =
     (case row of
        ArrayRow vs \<Rightarrow>
          traverse (\<lambda>(idx, v). import_array_cell imps column_types idx v)
            (List.enumerate 0 vs)
      | ObjectRow obj \<Rightarrow>
          traverse (\<lambda>(idx, k). import_object_cell imps column_types obj idx k)
            (List.enumerate 0 column_names))"

text \<open>
  \<open>from(arr)\<close>, with the own properties of the registry of importers as they stand.
  \<open>column_names\<close> and \<open>column_types\<close> read \<open>this.header_row.cells\<close>, which throws when
  there is no header section or no header row. \<open>createTBody\<close> puts the new row group
  after the last one left. The result is the table when \<open>from\<close> returns; when it throws,
  the table has been cleared and holds the rows made until then, which the result does
  not keep.
\<close>

definition from_arr ::
  "(string \<rightharpoonup> importer) \<Rightarrow> row_data list \<Rightarrow> ren_table \<Rightarrow> error + ren_table" where
  "from_arr imps arr t =
     (let t' = clear t in
      case header_row t' of
        Inl e \<Rightarrow> Inl e
      | Inr None \<Rightarrow> Inl TypeError
      | Inr (Some cells) \<Rightarrow>
          (let column_names = map th_name cells;
               column_types = map th_type cells
           in case traverse (import_row imps column_names column_types) arr of
                Inl e \<Rightarrow> Inl e
              | Inr tbody \<Rightarrow> Inr (t'\<lparr>tBodies := tBodies t' @ [tbody]\<rparr>)))"

text \<open>\<open>cell.type\<close> and \<open>cell.value\<close> as \<open>to_array\<close> reads them from a cell of a body
  row: the getters of a \<open>ren-td\<close>, and undefined on any other cell.\<close>

definition cell_type :: "ren_table \<Rightarrow> nat \<Rightarrow> td_elem \<Rightarrow> error + string option" where
  "cell_type t idx cell =
     (if is_ren_td cell
      then (case td_type t idx of Inl e \<Rightarrow> Inl e | Inr ty \<Rightarrow> Inr (Some ty))
      else Inr None)"

definition cell_value :: "td_elem \<Rightarrow> jsval" where
  "cell_value cell = (if is_ren_td cell then td_value cell else JUndefined)"

definition export_cell ::
  "(string \<rightharpoonup> exporter) \<Rightarrow> ren_table \<Rightarrow> nat \<Rightarrow> td_elem \<Rightarrow> error + exported" where
  "export_cell exps t idx cell =
     (case cell_type t idx cell of
        Inl e \<Rightarrow> Inl e
      | Inr ty \<Rightarrow>
          (case get_handler exps (property_key ty) of
             Some (Own exporter) \<Rightarrow> exporter t idx cell
           | Some (Inherited name) \<Rightarrow>
               (case call_inherited name cell_object of
                  Inl e \<Rightarrow> Inl e
                | Inr v \<Rightarrow> Inr (Value v))
           | None \<Rightarrow> Inr (Value (cell_value cell))))"

definition to_array :: "(string \<rightharpoonup> exporter) \<Rightarrow> ren_table \<Rightarrow> error + exported list list" where
  "to_array exps t =
     traverse (\<lambda>row. traverse (\<lambda>(idx, cell). export_cell exps t idx cell) (List.enumerate 0 row))
       (concat (tBodies t))"

section \<open>Changes of the header row: \<open>on_thead_tr_children_changed\<close>\<close>

text \<open>
  A node of the document, with its identity and whether it is an element, and a mutation
  record of the observed header row. The handler also reads the row as it is when the
  handler runs: \<open>row_nodes\<close> below is the list of its child nodes then, and
  \<open>mutation.target.children\<close> the elements among them. A node that is no longer in the
  row has no previous element sibling.
\<close>

record dom_node =
  node_id :: nat
  is_element :: bool

record mutation =
  addedNodes :: "dom_node list"
  removedNodes :: "dom_node list"
  previousSibling :: "dom_node option"

text \<open>\<open>Array.prototype.indexOf\<close>: the first position of the value, or -1.\<close>

fun indexOf :: "'a list \<Rightarrow> 'a \<Rightarrow> int" where
  "indexOf [] x = - 1"
| "indexOf (y # ys) x =
     (if y = x then 0 else (let i = indexOf ys x in if i < 0 then - 1 else i + 1))"

definition previousElementSibling :: "dom_node list \<Rightarrow> dom_node \<Rightarrow> dom_node option" where
  "previousElementSibling row_nodes n =
     (let i = indexOf row_nodes n in
      if i < 0 then None
      else (case filter is_element (take (nat i) row_nodes) of
              [] \<Rightarrow> None
            | es \<Rightarrow> Some (last es)))"

text \<open>\<open>Math.min\<close> of \<open>first_prev_sibling_index\<close>, which starts as +Infinity
  (\<open>None\<close>), and an index.\<close>

definition min_index :: "int option \<Rightarrow> int \<Rightarrow> int option" where
  "min_index first i = (case first of None \<Rightarrow> Some i | Some j \<Rightarrow> Some (min j i))"

text \<open>The loop over the mutations, with \<open>first_prev_sibling_index\<close> so far.\<close>

fun first_prev_sibling :: "dom_node list \<Rightarrow> mutation list \<Rightarrow> int option \<Rightarrow> int option" where
  "first_prev_sibling row_nodes [] first = first"
| "first_prev_sibling row_nodes (m # ms) first =
     (if list_ex is_element (addedNodes m @ removedNodes m)
      then (let prev_sibling =
                  (case previousSibling m of
                     None \<Rightarrow> None
                   | Some p \<Rightarrow>
                       if \<not> is_element p then previousElementSibling row_nodes p else Some p)
            in case prev_sibling of
                 None \<Rightarrow> Some (- 1)
               | Some p \<Rightarrow>
                   first_prev_sibling row_nodes ms
                     (min_index first (indexOf (filter is_element row_nodes) p)))
      else first_prev_sibling row_nodes ms first)"

definition first_update_column :: "dom_node list \<Rightarrow> mutation list \<Rightarrow> enat" where
  "first_update_column row_nodes mutations =
     (case first_prev_sibling row_nodes mutations None of
        None \<Rightarrow> \<infinity>
      | Some i \<Rightarrow> enat (nat (i + 1)))"

definition on_thead_tr_children_changed ::
  "dom_node list \<Rightarrow> mutation list \<Rightarrow> ren_table \<Rightarrow> ren_table" where
  "on_thead_tr_children_changed row_nodes mutations t =
     update 0 (first_update_column row_nodes mutations) \<infinity> \<infinity> t"

section \<open>The specification's notions, and values for the examples\<close>

text \<open>
  In the specification's words: a cell at flattened row \<open>row\<close> and column \<open>column\<close>
  lies inside a region's rectangle when \<open>row \<ge> row_start\<close>, \<open>column \<ge> column_start\<close>,
  \<open>row < row_end\<close> and \<open>column < column_end\<close>; and the queue's composite key is
  \<open>row_start\<close>, then \<open>column_start\<close>, smaller first.
\<close>

definition spec_in_rectangle :: "region \<Rightarrow> nat \<Rightarrow> nat \<Rightarrow> bool" where
  "spec_in_rectangle r row column =
     (row_start r \<le> enat row \<and> column_start r \<le> enat column
      \<and> enat row < row_end r \<and> enat column < column_end r)"

definition spec_key_le :: "region \<Rightarrow> region \<Rightarrow> bool" where
  "spec_key_le a b =
     (row_start a < row_start b
      \<or> (row_start a = row_start b \<and> column_start a \<le> column_start b))"

text \<open>What the sweep relies on: the regions of the queue start in ascending row order;
  and, for it to drop every exhausted region, that they end in ascending row order too.\<close>

definition starts_ascend :: "region list \<Rightarrow> bool" where
  "starts_ascend q = sorted_wrt (\<lambda>a b. row_start a \<le> row_start b) q"

definition ends_ascend :: "region list \<Rightarrow> bool" where
  "ends_ascend q = sorted_wrt (\<lambda>a b. row_end a \<le> row_end b) q"

text \<open>A region whose starts are finite, the column below 10 and the weight below
  \<open>2 ^ 53\<close>.\<close>

definition one_digit_column :: "region \<Rightarrow> bool" where
  "one_digit_column r =
     (\<exists>a b. row_start r = enat a \<and> column_start r = enat b \<and> b < 10
            \<and> a * 10 + b < 2 ^ 53)"

text \<open>A table whose body cells are all \<open>ren-td\<close> elements.\<close>

definition all_ren_td :: "td_elem list list \<Rightarrow> bool" where
  "all_ren_td rows = list_all (list_all is_ren_td) rows"

text \<open>\<open>to_array()\<close> called right after \<open>from(arr)\<close>.\<close>

definition from_then_to_array ::
  "(string \<rightharpoonup> importer) \<Rightarrow> (string \<rightharpoonup> exporter) \<Rightarrow> row_data list \<Rightarrow> ren_table
     \<Rightarrow> error + exported list list" where
  "from_then_to_array imps exps arr t =
     (case from_arr imps arr t of Inl e \<Rightarrow> Inl e | Inr t' \<Rightarrow> to_array exps t')"

text \<open>A \<open>ren-td\<close> with no attribute, one with a value, a plain \<open>td\<close>, a \<open>ren-th\<close>
  with a type and a name, and an element node.\<close>

definition blank :: td_elem where
  "blank = \<lparr>is_ren_td = True, value_attr = None, max_attr = None, shown = Text []\<rparr>"

definition cell_of :: "string \<Rightarrow> td_elem" where
  "cell_of v = \<lparr>is_ren_td = True, value_attr = Some v, max_attr = None, shown = Text []\<rparr>"

definition plain_td :: td_elem where
  "plain_td = \<lparr>is_ren_td = False, value_attr = None, max_attr = None, shown = Text []\<rparr>"

definition ren_th :: "string option \<Rightarrow> string option \<Rightarrow> th_elem" where
  "ren_th ty name = \<lparr>is_ren_th = True, type_attr = ty, name_attr = name, th_max_attr = None\<rparr>"

definition element :: "nat \<Rightarrow> dom_node" where
  "element i = \<lparr>node_id = i, is_element = True\<rparr>"

section \<open>Scheduling\<close>

text \<open>From a state with no pass scheduled, any non-empty run of \<open>update\<close> calls hands
  exactly one call of \<open>_update\<close> to the host, and every call adds one region.\<close>

lemma schedule_handle: "update_handle (schedule t) \<noteq> None"
  by (simp add: schedule_def split: option.splits)

lemma schedule_regions: "update_regions (schedule t) = update_regions t"
  by (simp add: schedule_def split: option.splits)

lemma schedule_tBodies: "tBodies (schedule t) = tBodies t"
  by (simp add: schedule_def split: option.splits)

lemma length_splice_entry: "length (splice_entry w e q) = Suc (length q)"
  by (induction q) auto

lemma update_handle_set: "update_handle (update rs cs re ce t) \<noteq> None"
  by (simp add: update_def Let_def schedule_handle)

lemma update_timers_None:
  "update_handle t = None \<Longrightarrow> timers (update rs cs re ce t) = timers t @ [next_timer t]"
  by (simp add: update_def Let_def schedule_def)

lemma update_timers_Some:
  "update_handle t = Some h \<Longrightarrow> timers (update rs cs re ce t) = timers t"
  by (simp add: update_def Let_def schedule_def)

lemma update_length:
  "length (update_regions (update rs cs re ce t)) = Suc (length (update_regions t))"
  by (simp add: update_def Let_def schedule_regions length_splice_entry)

lemma run_updates_timers_Some:
  "update_handle t \<noteq> None \<Longrightarrow> timers (run_updates calls t) = timers t"
proof (induction calls arbitrary: t)
  case Nil
  then show ?case by simp
next
  case (Cons c calls)
  obtain rs cs re ce where c: "c = (rs, cs, re, ce)" by (cases c) auto
  from Cons.prems obtain h where h: "update_handle t = Some h" by auto
  have "timers (run_updates calls (update rs cs re ce t)) = timers (update rs cs re ce t)"
    by (rule Cons.IH) (rule update_handle_set)
  with h c show ?case by (simp add: update_timers_Some)
qed

lemma run_updates_length:
  "length (update_regions (run_updates calls t)) = length (update_regions t) + length calls"
proof (induction calls arbitrary: t)
  case Nil
  then show ?case by simp
next
  case (Cons c calls)
  obtain rs cs re ce where c: "c = (rs, cs, re, ce)" by (cases c) auto
  show ?case by (simp add: c Cons.IH update_length)
qed

lemma run_updates_one_timer:
  assumes "update_handle t = None" and "calls \<noteq> []"
  shows "timers (run_updates calls t) = timers t @ [next_timer t]"
proof -
  from assms(2) obtain rs cs re ce rest where c: "calls = (rs, cs, re, ce) # rest"
    by (cases calls) auto
  have "timers (run_updates rest (update rs cs re ce t)) = timers (update rs cs re ce t)"
    by (rule run_updates_timers_Some) (rule update_handle_set)
  with assms(1) c show ?thesis by (simp add: update_timers_None)
qed

section \<open>Which cells the pass renders\<close>

text \<open>
  Every call the sweep makes is on a cell that exists, within the columns of a pending
  region that has started, and no cell is called twice. On a table whose body cells are
  all \<open>ren-td\<close> elements: when the queue's regions start in ascending row order, every
  cell inside a region's rectangle is called, exactly once; when they also end in
  ascending row order, no other cell is. Both orders hold for the regions the table's
  own handlers enqueue, which all start at row 0 and never end.
\<close>

lemma cells_loop_Cons_calls:
  "fst (cells_loop i j (c # cs) q)
     = (if cell_hit i j q
        then (if is_ren_td c then (i, j) # fst (cells_loop i (Suc j) cs q) else [])
        else fst (cells_loop i (Suc j) cs q))"
  by (simp split: prod.splits)

lemma cells_loop_Cons_error:
  "snd (cells_loop i j (c # cs) q)
     = (if cell_hit i j q
        then (if is_ren_td c then snd (cells_loop i (Suc j) cs q) else Some TypeError)
        else snd (cells_loop i (Suc j) cs q))"
  by (simp split: prod.splits)

declare cells_loop.simps(2) [simp del]

lemma cells_loop_calls:
  "(a, b) \<in> set (fst (cells_loop i j cells q)) \<Longrightarrow>
   a = i \<and> j \<le> b \<and> b < j + length cells \<and> cell_hit i b q"
proof (induction cells arbitrary: j)
  case Nil
  then show ?case by simp
next
  case (Cons c cs)
  from Cons.prems consider (here) "(a, b) = (i, j)" "cell_hit i j q"
    | (later) "(a, b) \<in> set (fst (cells_loop i (Suc j) cs q))"
    by (auto simp: cells_loop_Cons_calls split: if_splits)
  then show ?case
  proof cases
    case here
    then show ?thesis by simp
  next
    case later
    from Cons.IH [OF later] show ?thesis by simp
  qed
qed

lemma cells_loop_ren_td:
  "list_all is_ren_td cells \<Longrightarrow>
   cells_loop i j cells q
     = (map (Pair i) (filter (\<lambda>b. cell_hit i b q) [j..<j + length cells]), None)"
proof (induction cells arbitrary: j)
  case Nil
  then show ?case by simp
next
  case (Cons c cs)
  then have IH: "cells_loop i (Suc j) cs q
      = (map (Pair i) (filter (\<lambda>b. cell_hit i b q) [Suc j..<Suc j + length cs]), None)"
    by simp
  have "[j..<j + Suc (length cs)] = j # [Suc j..<j + Suc (length cs)]"
    by (rule upt_conv_Cons) simp
  then have upt: "[j..<j + length (c # cs)] = j # [Suc j..<Suc j + length cs]"
    by simp
  from Cons.prems have c: "is_ren_td c" by simp
  have f: "fst (cells_loop i j (c # cs) q)
      = map (Pair i) (filter (\<lambda>b. cell_hit i b q) (j # [Suc j..<Suc j + length cs]))"
    using c by (simp add: cells_loop_Cons_calls IH)
  have e: "snd (cells_loop i j (c # cs) q) = None"
    using c by (simp add: cells_loop_Cons_error IH)
  from f e have "cells_loop i j (c # cs) q
      = (map (Pair i) (filter (\<lambda>b. cell_hit i b q) (j # [Suc j..<Suc j + length cs])), None)"
    by (simp add: prod_eq_iff)
  then show ?case by (simp only: upt)
qed

lemma distinct_cells_loop: "distinct (fst (cells_loop i j cells q))"
proof (induction cells arbitrary: j)
  case Nil
  then show ?case by simp
next
  case (Cons c cs)
  have "(i, j) \<notin> set (fst (cells_loop i (Suc j) cs q))"
    using cells_loop_calls [of i j i "Suc j" cs q] by auto
  with Cons.IH show ?case by (simp add: cells_loop_Cons_calls)
qed

text \<open>The three ways through one step of the loop over the rows.\<close>

lemma sweep_break: "shift_passed k q = [] \<Longrightarrow> sweep k (row # rows) q = ([], [], None)"
  by simp

lemma sweep_continue:
  "shift_passed k q = h # rs \<Longrightarrow> enat k < row_start h \<Longrightarrow>
   sweep k (row # rows) q = sweep (Suc k) rows (h # rs)"
  by simp

lemma sweep_row_calls:
  "shift_passed k q = h # rs \<Longrightarrow> \<not> enat k < row_start h \<Longrightarrow>
   fst (snd (sweep k (row # rows) q))
     = fst (cells_loop k 0 row (h # rs))
       @ (if snd (cells_loop k 0 row (h # rs)) = None
          then fst (snd (sweep (Suc k) rows (h # rs))) else [])"
  by (simp add: Let_def split: prod.splits option.splits)

lemma sweep_row_error:
  "shift_passed k q = h # rs \<Longrightarrow> \<not> enat k < row_start h \<Longrightarrow>
   snd (snd (sweep k (row # rows) q))
     = (case snd (cells_loop k 0 row (h # rs)) of
          Some e \<Rightarrow> Some e
        | None \<Rightarrow> snd (snd (sweep (Suc k) rows (h # rs))))"
  by (simp add: Let_def split: prod.splits option.splits)

lemma sweep_row_queue:
  "shift_passed k q = h # rs \<Longrightarrow> \<not> enat k < row_start h \<Longrightarrow>
   fst (sweep k (row # rows) q)
     = (case snd (cells_loop k 0 row (h # rs)) of
          Some e \<Rightarrow> h # rs
        | None \<Rightarrow> fst (sweep (Suc k) rows (h # rs)))"
  by (simp add: Let_def split: prod.splits option.splits)

declare sweep.simps(2) [simp del]

lemma update_deferred_calls:
  "snd (update_deferred t) = fst (snd (sweep 0 (concat (tBodies t)) (update_regions t)))"
  by (simp add: update_deferred_def split: prod.splits option.splits)

lemma set_shift_passed: "set (shift_passed i q) \<subseteq> set q"
  by (induction q) auto

lemma shift_passed_sorted_wrt: "sorted_wrt P q \<Longrightarrow> sorted_wrt P (shift_passed i q)"
  by (induction q) auto

lemma shift_passed_keeps:
  "r \<in> set q \<Longrightarrow> enat i < row_end r \<Longrightarrow> r \<in> set (shift_passed i q)"
  by (induction q) auto

lemma shift_passed_head_live:
  "shift_passed i q = r # rs \<Longrightarrow> enat i < row_end r"
  by (induction q) (auto split: if_splits)

lemma cell_hit_sound:
  "cell_hit i j q \<Longrightarrow>
   \<exists>r\<in>set q. row_start r \<le> enat i \<and> column_start r \<le> enat j \<and> enat j < column_end r"
  by (induction q) (auto split: if_splits)

lemma cell_hit_complete:
  "starts_ascend q \<Longrightarrow> r \<in> set q \<Longrightarrow> row_start r \<le> enat i \<Longrightarrow>
   column_start r \<le> enat j \<Longrightarrow> enat j < column_end r \<Longrightarrow> cell_hit i j q"
proof (induction q)
  case Nil
  then show ?case by simp
next
  case (Cons h q)
  have "row_start h \<le> row_start r"
    using Cons.prems(1,2) by (auto simp: starts_ascend_def)
  from this Cons.prems(3) have "row_start h \<le> enat i" by (rule order_trans)
  then have h: "\<not> row_start h > enat i" by (simp add: not_less)
  show ?case
  proof (cases "r = h")
    case True
    with Cons.prems h show ?thesis by simp
  next
    case False
    with Cons.prems have "r \<in> set q" by simp
    moreover from Cons.prems(1) have "starts_ascend q" by (simp add: starts_ascend_def)
    ultimately have "cell_hit i j q" using Cons.IH Cons.prems by blast
    with h show ?thesis by simp
  qed
qed

text \<open>Every call of the sweep is on a cell that exists, within the columns of a pending
  region that has started.\<close>

lemma sweep_sound:
  "(i, j) \<in> set (fst (snd (sweep k rows q))) \<Longrightarrow>
   k \<le> i \<and> i - k < length rows \<and> j < length (rows ! (i - k))
   \<and> (\<exists>r\<in>set q. row_start r \<le> enat i \<and> column_start r \<le> enat j \<and> enat j < column_end r)"
proof (induction rows arbitrary: k q)
  case Nil
  then show ?case by simp
next
  case (Cons row rows)
  let ?q = "shift_passed k q"
  from Cons.prems obtain h rs where q': "?q = h # rs"
    by (cases ?q) (auto simp: sweep_break)
  have sub: "set ?q \<subseteq> set q" by (rule set_shift_passed)
  have "(i, j) \<in> set (fst (cells_loop k 0 row ?q))
      \<or> (i, j) \<in> set (fst (snd (sweep (Suc k) rows ?q)))"
  proof (cases "enat k < row_start h")
    case True
    with Cons.prems q' show ?thesis by (simp add: sweep_continue)
  next
    case False
    with Cons.prems q' show ?thesis
      by (auto simp: sweep_row_calls split: if_splits)
  qed
  then show ?case
  proof
    assume "(i, j) \<in> set (fst (cells_loop k 0 row ?q))"
    from cells_loop_calls [OF this] have ik: "i = k" and j: "j < length row"
      and hit: "cell_hit k j ?q" by simp_all
    from cell_hit_sound [OF hit] sub ik j show ?thesis by auto
  next
    assume later: "(i, j) \<in> set (fst (snd (sweep (Suc k) rows ?q)))"
    from Cons.IH [OF later] have
      a: "Suc k \<le> i" and b: "i - Suc k < length rows" and c: "j < length (rows ! (i - Suc k))"
      and d: "\<exists>r\<in>set ?q. row_start r \<le> enat i \<and> column_start r \<le> enat j \<and> enat j < column_end r"
      by simp_all
    from a have e: "i - k = Suc (i - Suc k)" by simp
    from a b c d sub show ?thesis by (auto simp: e)
  qed
qed

lemma sweep_calls_from_row: "(i, j) \<in> set (fst (snd (sweep k rows q))) \<Longrightarrow> k \<le> i"
  using sweep_sound by blast

text \<open>No cell is called twice in a pass.\<close>

lemma distinct_sweep: "distinct (fst (snd (sweep k rows q)))"
proof (induction rows arbitrary: k q)
  case Nil
  then show ?case by simp
next
  case (Cons row rows)
  let ?q = "shift_passed k q"
  show ?case
  proof (cases ?q)
    case Nil
    then show ?thesis by (simp add: sweep_break)
  next
    case (Cons h rs)
    show ?thesis
    proof (cases "enat k < row_start h")
      case True
      with Cons Cons.IH [of "Suc k" "h # rs"] show ?thesis
        using \<open>?q = h # rs\<close> by (simp add: sweep_continue)
    next
      case False
      have disj: "set (fst (cells_loop k 0 row (h # rs)))
          \<inter> set (fst (snd (sweep (Suc k) rows (h # rs)))) = {}"
      proof -
        { fix a b assume x: "(a, b) \<in> set (fst (cells_loop k 0 row (h # rs)))"
            and y: "(a, b) \<in> set (fst (snd (sweep (Suc k) rows (h # rs))))"
          from cells_loop_calls [OF x] have "a = k" by simp
          moreover from y have "Suc k \<le> a" by (rule sweep_calls_from_row)
          ultimately have False by simp }
        then show ?thesis by auto
      qed
      show ?thesis
      proof (cases "snd (cells_loop k 0 row (h # rs)) = None")
        case True
        with False Cons show ?thesis
          using Cons.IH [of "Suc k" "h # rs"] disj
          by (simp add: sweep_row_calls distinct_cells_loop)
      next
        case no: False
        from Cons False have "fst (snd (sweep k (row # rows) q))
            = fst (cells_loop k 0 row (h # rs))
              @ (if snd (cells_loop k 0 row (h # rs)) = None
                 then fst (snd (sweep (Suc k) rows (h # rs))) else [])"
          by (rule sweep_row_calls)
        moreover from no obtain e where "snd (cells_loop k 0 row (h # rs)) = Some e"
          by auto
        ultimately have "fst (snd (sweep k (row # rows) q))
            = fst (cells_loop k 0 row (h # rs))"
          by simp
        then show ?thesis by (simp add: distinct_cells_loop)
      qed
    qed
  qed
qed

text \<open>Over cells that are all \<open>ren-td\<close> elements the sweep does not throw.\<close>

lemma sweep_no_throw: "all_ren_td rows \<Longrightarrow> snd (snd (sweep k rows q)) = None"
proof (induction rows arbitrary: k q)
  case Nil
  then show ?case by simp
next
  case (Cons row rows)
  then have row: "list_all is_ren_td row" and rest: "all_ren_td rows"
    by (simp_all add: all_ren_td_def)
  let ?q = "shift_passed k q"
  show ?case
  proof (cases ?q)
    case Nil
    then show ?thesis by (simp add: sweep_break)
  next
    case (Cons h rs)
    show ?thesis
    proof (cases "enat k < row_start h")
      case True
      with Cons show ?thesis using Cons.IH [OF rest] by (simp add: sweep_continue)
    next
      case False
      have "snd (cells_loop k 0 row (h # rs)) = None"
        using row by (simp add: cells_loop_ren_td)
      with False Cons show ?thesis using Cons.IH [OF rest] by (simp add: sweep_row_error)
    qed
  qed
qed

text \<open>When the queue's regions start in ascending row order and all cells are \<open>ren-td\<close>
  elements, every cell inside a region's rectangle is called.\<close>

lemma sweep_complete:
  "all_ren_td rows \<Longrightarrow> starts_ascend q \<Longrightarrow> r \<in> set q \<Longrightarrow> spec_in_rectangle r i j \<Longrightarrow>
   k \<le> i \<Longrightarrow> i - k < length rows \<Longrightarrow> j < length (rows ! (i - k)) \<Longrightarrow>
   (i, j) \<in> set (fst (snd (sweep k rows q)))"
proof (induction rows arbitrary: k q)
  case Nil
  then show ?case by simp
next
  case (Cons row rows)
  from Cons.prems(1) have row: "list_all is_ren_td row" and rest: "all_ren_td rows"
    by (simp_all add: all_ren_td_def)
  let ?q = "shift_passed k q"
  from Cons.prems(4) have rect:
    "row_start r \<le> enat i" "column_start r \<le> enat j" "enat i < row_end r" "enat j < column_end r"
    by (simp_all add: spec_in_rectangle_def)
  from rect(3) Cons.prems(5) have "enat k < row_end r"
    by (metis enat_ord_simps(1) le_less_trans)
  with Cons.prems(3) have rq: "r \<in> set ?q" by (rule shift_passed_keeps)
  then obtain h rs where q': "?q = h # rs" by (cases ?q) auto
  have asc: "starts_ascend ?q"
    using Cons.prems(2) unfolding starts_ascend_def by (rule shift_passed_sorted_wrt)
  have no_throw: "snd (cells_loop k 0 row (h # rs)) = None"
    using row by (simp add: cells_loop_ren_td)
  show ?case
  proof (cases "i = k")
    case True
    have hit: "cell_hit k j ?q"
      using asc rq rect(1,2,4) True by (auto intro: cell_hit_complete)
    from hit have started: "\<not> enat k < row_start h"
      using q' by (auto split: if_splits)
    from Cons.prems(7) True have j: "j < length row" by simp
    have "(k, j) \<in> set (fst (cells_loop k 0 row (h # rs)))"
      using row hit j q' by (simp add: cells_loop_ren_td)
    with q' started True show ?thesis by (simp add: sweep_row_calls)
  next
    case False
    with Cons.prems(5) have a: "Suc k \<le> i" by simp
    then have e: "i - k = Suc (i - Suc k)" by simp
    from Cons.prems(6,7) e have b: "i - Suc k < length rows" "j < length (rows ! (i - Suc k))"
      by simp_all
    have later: "(i, j) \<in> set (fst (snd (sweep (Suc k) rows ?q)))"
      using rest asc rq Cons.prems(4) a b by (rule Cons.IH)
    show ?thesis
    proof (cases "enat k < row_start h")
      case True
      with q' later show ?thesis by (simp add: sweep_continue)
    next
      case started: False
      with q' later no_throw show ?thesis by (simp add: sweep_row_calls)
    qed
  qed
qed

lemma shift_passed_all_live:
  assumes "ends_ascend q" and "r \<in> set (shift_passed k q)"
  shows "enat k < row_end r"
proof (cases "shift_passed k q")
  case Nil
  with assms(2) show ?thesis by simp
next
  case (Cons h rs)
  then have live: "enat k < row_end h" by (rule shift_passed_head_live)
  have "sorted_wrt (\<lambda>a b. row_end a \<le> row_end b) (h # rs)"
    using assms(1) Cons shift_passed_sorted_wrt [of "\<lambda>a b. row_end a \<le> row_end b" q k]
    by (simp add: ends_ascend_def)
  with assms(2) Cons have "row_end h \<le> row_end r" by auto
  with live show ?thesis by (rule less_le_trans)
qed

text \<open>When the regions also end in ascending row order, every call is inside a region's
  rectangle.\<close>

lemma sweep_sound_rectangle:
  "ends_ascend q \<Longrightarrow> (i, j) \<in> set (fst (snd (sweep k rows q))) \<Longrightarrow>
   \<exists>r\<in>set q. spec_in_rectangle r i j"
proof (induction rows arbitrary: k q)
  case Nil
  then show ?case by simp
next
  case (Cons row rows)
  let ?q = "shift_passed k q"
  from Cons.prems(2) obtain h rs where q': "?q = h # rs"
    by (cases ?q) (auto simp: sweep_break)
  have sub: "set ?q \<subseteq> set q" by (rule set_shift_passed)
  have asc: "ends_ascend ?q"
    using Cons.prems(1) unfolding ends_ascend_def by (rule shift_passed_sorted_wrt)
  have "(i, j) \<in> set (fst (cells_loop k 0 row ?q))
      \<or> (i, j) \<in> set (fst (snd (sweep (Suc k) rows ?q)))"
  proof (cases "enat k < row_start h")
    case True
    with Cons.prems(2) q' show ?thesis by (simp add: sweep_continue)
  next
    case False
    with Cons.prems(2) q' show ?thesis
      by (auto simp: sweep_row_calls split: if_splits)
  qed
  then show ?case
  proof
    assume "(i, j) \<in> set (fst (cells_loop k 0 row ?q))"
    from cells_loop_calls [OF this] have ik: "i = k" and hit: "cell_hit k j ?q"
      by simp_all
    from cell_hit_sound [OF hit] obtain r where r: "r \<in> set ?q"
      "row_start r \<le> enat k" "column_start r \<le> enat j" "enat j < column_end r"
      by blast
    from Cons.prems(1) r(1) have "enat k < row_end r" by (rule shift_passed_all_live)
    with r ik have "spec_in_rectangle r i j" by (simp add: spec_in_rectangle_def)
    with r(1) sub show ?thesis by blast
  next
    assume later: "(i, j) \<in> set (fst (snd (sweep (Suc k) rows ?q)))"
    from Cons.IH [OF asc later] sub show ?thesis by blast
  qed
qed

lemma pass_exact_on_ordered_queue:
  assumes "all_ren_td (concat (tBodies t))"
    and "starts_ascend (update_regions t)" and "ends_ascend (update_regions t)"
  shows "(i, j) \<in> set (snd (update_deferred t)) \<longleftrightarrow>
         i < length (concat (tBodies t)) \<and> j < length (concat (tBodies t) ! i)
         \<and> (\<exists>r\<in>set (update_regions t). spec_in_rectangle r i j)"
proof
  assume "(i, j) \<in> set (snd (update_deferred t))"
  then have a: "(i, j) \<in> set (fst (snd (sweep 0 (concat (tBodies t)) (update_regions t))))"
    by (simp add: update_deferred_calls)
  from sweep_sound [OF a] sweep_sound_rectangle [OF assms(3) a]
  show "i < length (concat (tBodies t)) \<and> j < length (concat (tBodies t) ! i)
         \<and> (\<exists>r\<in>set (update_regions t). spec_in_rectangle r i j)"
    by simp
next
  assume b: "i < length (concat (tBodies t)) \<and> j < length (concat (tBodies t) ! i)
         \<and> (\<exists>r\<in>set (update_regions t). spec_in_rectangle r i j)"
  then obtain r where r: "r \<in> set (update_regions t)" "spec_in_rectangle r i j" by blast
  from b have "(i, j) \<in> set (fst (snd (sweep 0 (concat (tBodies t)) (update_regions t))))"
    by (intro sweep_complete [OF assms(1,2) r]) simp_all
  then show "(i, j) \<in> set (snd (update_deferred t))"
    by (simp add: update_deferred_calls)
qed

text \<open>On such a table and queue a cell inside at least one pending rectangle is called
  exactly once, however many regions hold it.\<close>

lemma distinct_count_one: "distinct xs \<Longrightarrow> x \<in> set xs \<Longrightarrow> count_list xs x = 1"
  by (induction xs) auto

lemma pass_renders_once_on_ordered_queue:
  assumes "all_ren_td (concat (tBodies t))" and "starts_ascend (update_regions t)"
    and "r \<in> set (update_regions t)" and "spec_in_rectangle r i j"
    and "i < length (concat (tBodies t))" and "j < length (concat (tBodies t) ! i)"
  shows "count_list (snd (update_deferred t)) (i, j) = 1"
proof -
  have "(i, j) \<in> set (fst (snd (sweep 0 (concat (tBodies t)) (update_regions t))))"
    using assms by (intro sweep_complete [OF assms(1,2,3,4)]) simp_all
  moreover have "distinct (fst (snd (sweep 0 (concat (tBodies t)) (update_regions t))))"
    by (rule distinct_sweep)
  ultimately show ?thesis by (simp add: update_deferred_calls distinct_count_one)
qed

lemma set_splice_entry: "set (splice_entry w e q) = insert e (set q)"
  by (induction q) auto

lemma update_regions_update:
  "set (update_regions (update rs cs re ce t))
     = insert \<lparr>row_start = rs, column_start = cs, row_end = re, column_end = ce\<rparr>
         (set (update_regions t))"
  by (simp add: update_def Let_def schedule_regions set_splice_entry)

lemma update_tBodies: "tBodies (update rs cs re ce t) = tBodies t"
  by (simp add: update_def Let_def schedule_tBodies)

lemma run_updates_tBodies: "tBodies (run_updates calls t) = tBodies t"
proof (induction calls arbitrary: t)
  case Nil
  then show ?case by simp
next
  case (Cons c calls)
  obtain rs cs re ce where c: "c = (rs, cs, re, ce)" by (cases c) auto
  show ?case by (simp add: c Cons.IH update_tBodies)
qed

lemma run_updates_whole_rows:
  assumes "\<And>rs cs re ce. (rs, cs, re, ce) \<in> set calls \<Longrightarrow> rs = 0 \<and> re = \<infinity>"
    and "\<And>r. r \<in> set (update_regions t) \<Longrightarrow> row_start r = 0 \<and> row_end r = \<infinity>"
    and "r \<in> set (update_regions (run_updates calls t))"
  shows "row_start r = 0 \<and> row_end r = \<infinity>"
  using assms
proof (induction calls arbitrary: t)
  case Nil
  then show ?case by simp
next
  case (Cons c calls)
  obtain rs cs re ce where c: "c = (rs, cs, re, ce)" by (cases c) auto
  have "(rs, cs, re, ce) \<in> set (c # calls)" by (simp add: c)
  then have z: "rs = 0 \<and> re = \<infinity>" by (rule Cons.prems(1))
  have step: "row_start x = 0 \<and> row_end x = \<infinity>"
    if "x \<in> set (update_regions (update rs cs re ce t))" for x
  proof -
    from that have "x = \<lparr>row_start = rs, column_start = cs, row_end = re, column_end = ce\<rparr>
        \<or> x \<in> set (update_regions t)"
      by (simp add: update_regions_update)
    then show ?thesis
    proof
      assume "x = \<lparr>row_start = rs, column_start = cs, row_end = re, column_end = ce\<rparr>"
      with z show ?thesis by simp
    next
      assume "x \<in> set (update_regions t)"
      then show ?thesis by (rule Cons.prems(2))
    qed
  qed
  have rest: "rs' = 0 \<and> re' = \<infinity>" if "(rs', cs', re', ce') \<in> set calls" for rs' cs' re' ce'
  proof -
    from that have "(rs', cs', re', ce') \<in> set (c # calls)" by simp
    then show ?thesis by (rule Cons.prems(1))
  qed
  from Cons.prems(3) have "r \<in> set (update_regions (run_updates calls (update rs cs re ce t)))"
    by (simp add: c)
  with rest step show ?case by (rule Cons.IH)
qed

lemma whole_rows_ascend:
  "\<forall>r\<in>set q. row_start r = 0 \<and> row_end r = \<infinity> \<Longrightarrow> starts_ascend q \<and> ends_ascend q"
  by (induction q) (auto simp: starts_ascend_def ends_ascend_def)

lemma pass_exact_for_whole_row_calls:
  assumes "\<And>rs cs re ce. (rs, cs, re, ce) \<in> set calls \<Longrightarrow> rs = 0 \<and> re = \<infinity>"
    and "update_regions t = []" and "all_ren_td (concat (tBodies t))"
  shows "(i, j) \<in> set (snd (update_deferred (run_updates calls t))) \<longleftrightarrow>
         i < length (concat (tBodies (run_updates calls t)))
         \<and> j < length (concat (tBodies (run_updates calls t)) ! i)
         \<and> (\<exists>r\<in>set (update_regions (run_updates calls t)). spec_in_rectangle r i j)"
proof -
  have "row_start r = 0 \<and> row_end r = \<infinity>"
    if "r \<in> set (update_regions (run_updates calls t))" for r
    using assms(1) _ that
  proof (rule run_updates_whole_rows)
    fix x assume "x \<in> set (update_regions t)"
    with assms(2) show "row_start x = 0 \<and> row_end x = \<infinity>" by simp
  qed
  then have "\<forall>r\<in>set (update_regions (run_updates calls t)). row_start r = 0 \<and> row_end r = \<infinity>"
    by blast
  then have "starts_ascend (update_regions (run_updates calls t))
      \<and> ends_ascend (update_regions (run_updates calls t))"
    by (rule whole_rows_ascend)
  then have a: "starts_ascend (update_regions (run_updates calls t))"
    and b: "ends_ascend (update_regions (run_updates calls t))"
    by simp_all
  have c: "all_ren_td (concat (tBodies (run_updates calls t)))"
    using assms(3) by (simp add: run_updates_tBodies)
  show ?thesis by (rule pass_exact_on_ordered_queue [OF c a b])
qed

text \<open>
  Claim C1 says that the pass touches a cell if and only if the cell lies inside the
  rectangle of a pending region. The code does not keep to the rectangles: after
  \<open>update(0, 0, 10, 1)\<close> and \<open>update(0, 1, 1, 2)\<close> on a table of two rows of two
  cells, the pass calls \<open>update()\<close> of the cell at row 1, column 1, which is inside
  neither region (the second one ended before row 1, and is still tested by column
  because it is not at the head of the queue).
\<close>

theorem pass_touches_cell_outside_every_region:
  "update_regions (run_updates [(0, 0, 10, 1), (0, 1, 1, 2)]
        (constructor None [[[blank, blank], [blank, blank]]]))
     = [\<lparr>row_start = 0, column_start = 0, row_end = 10, column_end = 1\<rparr>,
        \<lparr>row_start = 0, column_start = 1, row_end = 1, column_end = 2\<rparr>]
   \<and> snd (update_deferred (run_updates [(0, 0, 10, 1), (0, 1, 1, 2)]
        (constructor None [[[blank, blank], [blank, blank]]])))
     = [(0, 0), (0, 1), (1, 0), (1, 1)]
   \<and> list_ex (\<lambda>r. spec_in_rectangle r 1 1)
        (update_regions (run_updates [(0, 0, 10, 1), (0, 1, 1, 2)]
          (constructor None [[[blank, blank], [blank, blank]]]))) = False"
  by code_simp

section \<open>The order of the queue\<close>

lemma digit_val_digit_char: "n < 10 \<Longrightarrow> digit_val (digit_char n) = n"
  by (simp add: digit_val_def digit_char_def)

lemma is_digit_digit_char: "n < 10 \<Longrightarrow> is_digit (digit_char n)"
  by (simp add: is_digit_def digit_char_def)

lemma digits_not_Nil: "digits n \<noteq> []"
  by (subst digits.simps) simp

lemma all_digits: "list_all is_digit (digits n)"
proof (induction n rule: digits.induct)
  case (1 n)
  show ?case
  proof (cases "n < 10")
    case True
    then show ?thesis by (subst digits.simps) (simp add: is_digit_digit_char)
  next
    case False
    with 1 show ?thesis by (subst digits.simps) (simp add: is_digit_digit_char)
  qed
qed

lemma foldl_digits:
  "foldl (\<lambda>a c. 10 * a + digit_val c) a (digits n) = a * 10 ^ length (digits n) + n"
proof (induction n arbitrary: a rule: digits.induct)
  case (1 n)
  show ?case
  proof (cases "n < 10")
    case True
    then have "digits n = [digit_char n]" by (subst digits.simps) simp
    with True show ?thesis by (simp add: digit_val_digit_char)
  next
    case False
    then have IH: "foldl (\<lambda>a c. 10 * a + digit_val c) a (digits (n div 10))
        = a * 10 ^ length (digits (n div 10)) + n div 10"
      using 1 by simp
    have d: "digits n = digits (n div 10) @ [digit_char (n mod 10)]"
      using False by (subst digits.simps) simp
    have "foldl (\<lambda>a c. 10 * a + digit_val c) a (digits n)
        = 10 * (a * 10 ^ length (digits (n div 10)) + n div 10) + n mod 10"
      by (simp only: d foldl_append foldl.simps IH) (simp add: digit_val_digit_char)
    also have "\<dots> = a * 10 ^ length (digits n) + n"
      by (simp add: d algebra_simps)
    finally show ?thesis .
  qed
qed

lemma to_double_exact: "n < 2 ^ 53 \<Longrightarrow> to_double n = enat n"
  by (simp add: to_double_def)

text \<open>The weight of a region with finite starts is the number written by the digits of
  \<open>row_start\<close> followed by those of \<open>column_start\<close>, as long as that number is below
  \<open>2 ^ 53\<close>.\<close>

lemma weight_finite:
  assumes "r * 10 ^ length (digits c) + c < 2 ^ 53"
  shows "weight \<lparr>row_start = enat r, column_start = enat c, row_end = re, column_end = ce\<rparr>
     = Some (enat (r * 10 ^ length (digits c) + c))"
proof -
  have "foldl (\<lambda>a c. 10 * a + digit_val c) 0 (digits r @ digits c)
      = r * 10 ^ length (digits c) + c"
    by (simp add: foldl_digits)
  then show ?thesis
    using assms
    by (simp add: weight_def String_num_def Number_str_def all_digits digits_not_Nil
        to_double_exact Let_def)
qed

text \<open>As long as every start column has one digit and the weights stay below
  \<open>2 ^ 53\<close>, the weights order the regions as the key does, and \<open>update\<close> keeps the queue
  in key order.\<close>

lemma digits_one: "b < 10 \<Longrightarrow> digits b = [digit_char b]"
  by (subst digits.simps) simp

lemma weight_one_digit:
  assumes "row_start r = enat a" and "column_start r = enat b" and "b < 10"
    and "a * 10 + b < 2 ^ 53"
  shows "weight r = Some (enat (a * 10 + b))"
proof -
  have "r = \<lparr>row_start = enat a, column_start = enat b, row_end = row_end r,
      column_end = column_end r\<rparr>"
    using assms(1,2) by (cases r) simp
  moreover have "a * 10 ^ length (digits b) + b < 2 ^ 53"
    using assms(3,4) by (simp add: digits_one)
  ultimately have "weight r = Some (enat (a * 10 ^ length (digits b) + b))"
    using weight_finite [of a b "row_end r" "column_end r"] by simp
  with assms(3) show ?thesis by (simp add: digits_one)
qed

lemma key_order_one_digit:
  assumes "one_digit_column x" and "one_digit_column y"
  shows "spec_key_le x y \<longleftrightarrow> \<not> js_gt (weight x) (weight y)"
proof -
  from assms(1) obtain a b where x: "row_start x = enat a" "column_start x = enat b" "b < 10"
      "a * 10 + b < 2 ^ 53"
    by (auto simp: one_digit_column_def)
  from assms(2) obtain c d where y: "row_start y = enat c" "column_start y = enat d" "d < 10"
      "c * 10 + d < 2 ^ 53"
    by (auto simp: one_digit_column_def)
  have wx: "weight x = Some (enat (a * 10 + b))" using x by (rule weight_one_digit)
  have wy: "weight y = Some (enat (c * 10 + d))" using y by (rule weight_one_digit)
  have "(a < c \<or> (a = c \<and> b \<le> d)) \<longleftrightarrow> a * 10 + b \<le> c * 10 + d"
    using x(3) y(3) by arith
  then show ?thesis
    by (simp add: spec_key_le_def x(1,2) y(1,2) wx wy js_gt_def not_less)
qed

lemma spec_key_le_trans:
  "spec_key_le x y \<Longrightarrow> spec_key_le y z \<Longrightarrow> spec_key_le x z"
  by (auto simp: spec_key_le_def)

lemma spec_key_le_total_one_digit:
  assumes "one_digit_column x" and "one_digit_column y" and "\<not> spec_key_le x y"
  shows "spec_key_le y x"
proof -
  from assms(1) obtain a b where x: "row_start x = enat a" "column_start x = enat b"
    by (auto simp: one_digit_column_def)
  from assms(2) obtain c d where y: "row_start y = enat c" "column_start y = enat d"
    by (auto simp: one_digit_column_def)
  from assms(3) show ?thesis by (auto simp: spec_key_le_def x y)
qed

lemma splice_entry_keeps_key_order:
  assumes "one_digit_column e" and "\<forall>r\<in>set q. one_digit_column r"
    and "sorted_wrt spec_key_le q"
  shows "sorted_wrt spec_key_le (splice_entry (weight e) e q)"
  using assms(2,3)
proof (induction q)
  case Nil
  then show ?case by simp
next
  case (Cons r rs)
  have r1: "one_digit_column r" using Cons.prems(1) by simp
  have rs1: "\<forall>x\<in>set rs. one_digit_column x" using Cons.prems(1) by simp
  have rle: "\<forall>x\<in>set rs. spec_key_le r x" using Cons.prems(2) by simp
  have srs: "sorted_wrt spec_key_le rs" using Cons.prems(2) by simp
  show ?case
  proof (cases "js_gt (weight r) (weight e)")
    case True
    then have "\<not> spec_key_le r e" using key_order_one_digit [OF r1 assms(1)] by simp
    then have er: "spec_key_le e r"
      using r1 assms(1) by (rule spec_key_le_total_one_digit [rotated 2])
    have "\<forall>x\<in>set rs. spec_key_le e x"
      using er rle by (blast intro: spec_key_le_trans)
    with True er Cons.prems(2) show ?thesis by simp
  next
    case False
    then have re: "spec_key_le r e" using key_order_one_digit [OF r1 assms(1)] by simp
    have "sorted_wrt spec_key_le (splice_entry (weight e) e rs)"
      using rs1 srs by (rule Cons.IH)
    moreover have "\<forall>x\<in>set (splice_entry (weight e) e rs). spec_key_le r x"
      using re rle by (simp add: set_splice_entry)
    ultimately show ?thesis using False by simp
  qed
qed

lemma update_keeps_key_order_one_digit:
  assumes "b < 10" and "a * 10 + b < 2 ^ 53"
    and "\<forall>r\<in>set (update_regions t). one_digit_column r"
    and "sorted_wrt spec_key_le (update_regions t)"
  shows "sorted_wrt spec_key_le (update_regions (update (enat a) (enat b) re ce t))
       \<and> (\<forall>r\<in>set (update_regions (update (enat a) (enat b) re ce t)). one_digit_column r)"
proof -
  let ?e = "\<lparr>row_start = enat a, column_start = enat b, row_end = re, column_end = ce\<rparr>"
  have e1: "one_digit_column ?e" using assms(1,2) by (simp add: one_digit_column_def)
  have "sorted_wrt spec_key_le (splice_entry (weight ?e) ?e (update_regions t))"
    using e1 assms(3,4) by (rule splice_entry_keeps_key_order)
  moreover have "\<forall>r\<in>set (splice_entry (weight ?e) ?e (update_regions t)). one_digit_column r"
    using e1 assms(3) by (simp add: set_splice_entry)
  ultimately show ?thesis
    by (simp add: update_def Let_def schedule_regions)
qed

text \<open>What the order is for: with the queue of \<open>update(1, 20)\<close> and \<open>update(11, 0)\<close>,
  the pass over two rows of 21 cells renders nothing, the head of the queue starting at
  row 11; the cell at row 1, column 20 is inside the first call's region.\<close>

lemma pass_skips_cells_behind_later_head:
  "snd (update_deferred (run_updates [(1, 20, \<infinity>, \<infinity>), (11, 0, \<infinity>, \<infinity>)]
        (constructor None [[replicate 21 blank, replicate 21 blank]]))) = []
   \<and> spec_in_rectangle \<lparr>row_start = 1, column_start = 20, row_end = \<infinity>, column_end = \<infinity>\<rparr> 1 20"
  by code_simp

text \<open>
  Claim C2 says that the queue is kept in ascending order of the key (\<open>row_start\<close>, then
  \<open>column_start\<close>). The code does not keep it: after \<open>update(1, 20)\<close> and
  \<open>update(11, 0)\<close> the region starting at row 11 stands before the region starting at
  row 1, since the weights compared are 120 and 110.
\<close>

theorem queue_not_in_key_order:
  "update_regions (run_updates [(1, 20, \<infinity>, \<infinity>), (11, 0, \<infinity>, \<infinity>)] (constructor None []))
     = [\<lparr>row_start = 11, column_start = 0, row_end = \<infinity>, column_end = \<infinity>\<rparr>,
        \<lparr>row_start = 1, column_start = 20, row_end = \<infinity>, column_end = \<infinity>\<rparr>]
   \<and> weight \<lparr>row_start = 1, column_start = 20, row_end = \<infinity>, column_end = \<infinity>\<rparr> = Some 120
   \<and> weight \<lparr>row_start = 11, column_start = 0, row_end = \<infinity>, column_end = \<infinity>\<rparr> = Some 110
   \<and> spec_key_le \<lparr>row_start = 11, column_start = 0, row_end = \<infinity>, column_end = \<infinity>\<rparr>
        \<lparr>row_start = 1, column_start = 20, row_end = \<infinity>, column_end = \<infinity>\<rparr> = False"
  by code_simp

text \<open>
  Claim C3 says that the calls of \<open>update()\<close> made before the pass runs schedule exactly
  one pass, and that in this pass each cell inside a pending region is rendered exactly
  once. One pass is scheduled; but after \<open>update(1, 20)\<close> and \<open>update(11, 0)\<close> on
  twelve rows of 21 \<open>ren-td\<close> cells the pass never renders the cell at row 5, column
  20, which is inside the first call's region: the queue holds the region that starts at
  row 11 at its head, and the sweep skips every row before the head's start. The cell at
  row 11, column 20, inside both regions, is rendered once.
\<close>

theorem cell_in_pending_region_not_rendered:
  "timers (run_updates [(1, 20, \<infinity>, \<infinity>), (11, 0, \<infinity>, \<infinity>)]
      (constructor None [replicate 12 (replicate 21 blank)])) = [1]
   \<and> list_ex (\<lambda>r. spec_in_rectangle r 5 20)
        (update_regions (run_updates [(1, 20, \<infinity>, \<infinity>), (11, 0, \<infinity>, \<infinity>)]
          (constructor None [replicate 12 (replicate 21 blank)])))
   \<and> count_list (snd (update_deferred (run_updates [(1, 20, \<infinity>, \<infinity>), (11, 0, \<infinity>, \<infinity>)]
        (constructor None [replicate 12 (replicate 21 blank)])))) (5, 20) = 0
   \<and> count_list (snd (update_deferred (run_updates [(1, 20, \<infinity>, \<infinity>), (11, 0, \<infinity>, \<infinity>)]
        (constructor None [replicate 12 (replicate 21 blank)])))) (11, 20) = 1"
  by code_simp

section \<open>The pass and the queue\<close>

text \<open>
  Claim C4 says that for every table contents the queue is empty at the end of a render
  pass. It is not when a body row holds a cell that is no \<open>ren-td\<close> inside a pending
  region: on one row with one plain \<open>td\<close>, the pass after \<open>update()\<close> throws at that
  cell and leaves the region in the queue.
\<close>

theorem pass_over_plain_cell_keeps_queue:
  "fst (update_deferred (update 0 0 \<infinity> \<infinity> (constructor None [[[plain_td]]])))
     = Thrown TypeError
         ((update 0 0 \<infinity> \<infinity> (constructor None [[[plain_td]]]))\<lparr>update_handle := None\<rparr>)
   \<and> update_regions (table_after (fst (update_deferred
        (update 0 0 \<infinity> \<infinity> (constructor None [[[plain_td]]])))))
     = [\<lparr>row_start = 0, column_start = 0, row_end = \<infinity>, column_end = \<infinity>\<rparr>]"
  by code_simp

text \<open>
  Claim C4, amended. For every queue and every table whose body cells are all \<open>ren-td\<close>
  elements, the render pass completes and leaves the queue empty: also the regions that
  start past the last row, which the sweep never reaches.
\<close>

theorem pass_over_ren_td_cells_empties_queue:
  assumes "all_ren_td (concat (tBodies t))"
  shows "fst (update_deferred t) = Completed (t\<lparr>update_handle := None, update_regions := []\<rparr>)
       \<and> update_regions (table_after (fst (update_deferred t))) = []"
proof -
  obtain q calls e where sw: "sweep 0 (concat (tBodies t)) (update_regions t) = (q, calls, e)"
    by (cases "sweep 0 (concat (tBodies t)) (update_regions t)") auto
  from assms have "snd (snd (sweep 0 (concat (tBodies t)) (update_regions t))) = None"
    by (rule sweep_no_throw)
  with sw have "e = None" by simp
  with sw show ?thesis by (simp add: update_deferred_def table_after_def)
qed

theorem pass_over_ren_td_cells_empties_queue_witness:
  "all_ren_td (concat (tBodies (run_updates [(0, 1, \<infinity>, \<infinity>), (5, 0, \<infinity>, \<infinity>)]
        (constructor None [[[blank, blank]], [[blank, blank]]]))))
   \<and> update_regions (run_updates [(0, 1, \<infinity>, \<infinity>), (5, 0, \<infinity>, \<infinity>)]
        (constructor None [[[blank, blank]], [[blank, blank]]]))
     = [\<lparr>row_start = 0, column_start = 1, row_end = \<infinity>, column_end = \<infinity>\<rparr>,
        \<lparr>row_start = 5, column_start = 0, row_end = \<infinity>, column_end = \<infinity>\<rparr>]
   \<and> snd (update_deferred (run_updates [(0, 1, \<infinity>, \<infinity>), (5, 0, \<infinity>, \<infinity>)]
        (constructor None [[[blank, blank]], [[blank, blank]]]))) = [(0, 1), (1, 1)]
   \<and> update_regions (table_after (fst (update_deferred
        (run_updates [(0, 1, \<infinity>, \<infinity>), (5, 0, \<infinity>, \<infinity>)]
          (constructor None [[[blank, blank]], [[blank, blank]]]))))) = []"
proof -
  let ?t = "run_updates [(0, 1, \<infinity>, \<infinity>), (5, 0, \<infinity>, \<infinity>)]
    (constructor None [[[blank, blank]], [[blank, blank]]])"
  have h: "all_ren_td (concat (tBodies ?t))" by code_simp
  have q: "update_regions ?t
     = [\<lparr>row_start = 0, column_start = 1, row_end = \<infinity>, column_end = \<infinity>\<rparr>,
        \<lparr>row_start = 5, column_start = 0, row_end = \<infinity>, column_end = \<infinity>\<rparr>]"
    by code_simp
  have c: "snd (update_deferred ?t) = [(0, 1), (1, 1)]" by code_simp
  from pass_over_ren_td_cells_empties_queue [OF h]
  have e: "update_regions (table_after (fst (update_deferred ?t))) = []" by (rule conjunct2)
  from h q c e show ?thesis by (intro conjI)
qed

section \<open>The type of a body cell\<close>

text \<open>With a header cell at its index, the type of a body cell is that cell's type, and
  \<open>text\<close> when the header cell declares none.\<close>

lemma td_type_of_header_cell:
  "tHead t = Some (cells # trs) \<Longrightarrow> idx < length cells \<Longrightarrow>
   td_type t idx = Inr (case th_type (cells ! idx) of None \<Rightarrow> ''text'' | Some ty \<Rightarrow> ty)"
  by (simp add: td_type_def td_header_def header_def at_index_def)

text \<open>
  Claim C9 says that reading \<open>type\<close> of a body cell is total, also when the table has
  no header section, no header row, or fewer header cells than the cell's index. The
  code throws a TypeError in each of the three cases.
\<close>

theorem td_type_throws_without_header_cell:
  "td_type (t\<lparr>tHead := None\<rparr>) idx = Inl TypeError
   \<and> td_type (t\<lparr>tHead := Some []\<rparr>) idx = Inl TypeError
   \<and> td_type (t\<lparr>tHead := Some (cells # trs)\<rparr>) (length cells + k) = Inl TypeError"
  by (simp add: td_type_def td_header_def header_def at_index_def)

section \<open>Rendering a body cell\<close>

text \<open>For a type name that is not a property of \<open>Object.prototype\<close> and has no
  renderer, the deferred render shows the raw value as text and warns; for a type with a
  registered renderer, the result is that renderer's.\<close>

lemma td_update_deferred_unregistered:
  assumes "td_type t idx = Inr ty" and "reg ty = None" and "ty \<notin> set Object_prototype"
  shows "td_update_deferred reg t idx td console
     = Inr (td\<lparr>shown := Text (case value_attr td of None \<Rightarrow> [] | Some v \<Rightarrow> v)\<rparr>,
            console @ [No_renderer_for ty])"
  using assms by (simp add: td_update_deferred_def get_handler_def set_textContent_def)

lemma td_update_deferred_registered:
  assumes "td_type t idx = Inr ty" and "reg ty = Some renderer"
  shows "td_update_deferred reg t idx td console
     = (case renderer t idx td of Inl e \<Rightarrow> Inl e | Inr td' \<Rightarrow> Inr (td', console))"
  using assms by (simp add: td_update_deferred_def get_handler_def)

text \<open>
  Claim C8 says that for every body cell whose resolved type has no registered renderer
  the deferred render shows the raw value as text, warns, and never throws. It does not
  for a type whose name every object inherits: with the built-in renderers a cell of
  type \<open>__proto__\<close> makes the render throw a TypeError, and for a cell of type
  \<open>constructor\<close> the render returns with the cell as it was and nothing warned.
\<close>

theorem inherited_type_name_skips_fallback:
  "td_type (constructor (Some [[ren_th (Some ''__proto__'') None,
        ren_th (Some ''constructor'') None]]) []) 0 = Inr ''__proto__''
   \<and> renderers ''__proto__'' = None
   \<and> td_update_deferred renderers (constructor (Some [[ren_th (Some ''__proto__'') None,
        ren_th (Some ''constructor'') None]]) []) 0 (cell_of ''raw'') [] = Inl TypeError
   \<and> td_type (constructor (Some [[ren_th (Some ''__proto__'') None,
        ren_th (Some ''constructor'') None]]) []) 1 = Inr ''constructor''
   \<and> renderers ''constructor'' = None
   \<and> td_update_deferred renderers (constructor (Some [[ren_th (Some ''__proto__'') None,
        ren_th (Some ''constructor'') None]]) []) 1 (cell_of ''raw'') []
     = Inr (cell_of ''raw'', [])"
  by code_simp

text \<open>
  Claim C10. For a body cell of type \<open>check\<close>, rendered with the built-in renderers:
  the cell shows the cross mark when the \<open>value\<close> attribute is absent or the empty
  string and the check mark for every other value, by the string alone (so for
  \<open>0\<close> and \<open>false\<close> too); the two glyphs differ.
\<close>

theorem check_renderer_glyph:
  assumes "td_type t idx = Inr ''check''"
  shows "td_update_deferred renderers t idx td console
           = Inr (td\<lparr>shown := Text (if value_attr td = None \<or> value_attr td = Some []
                                      then cross_mark else check_mark)\<rparr>, console)
         \<and> check_mark \<noteq> cross_mark"
  using assms
  by (auto simp: td_update_deferred_def get_handler_def renderers_def render_check_def
      set_textContent_def check_mark_def cross_mark_def Let_def split: option.splits)

theorem check_renderer_glyph_witness:
  "td_type (constructor (Some [[ren_th (Some ''check'') None]]) []) 0 = Inr ''check''
   \<and> td_update_deferred renderers (constructor (Some [[ren_th (Some ''check'') None]]) []) 0
        (cell_of ''0'') []
       = Inr ((cell_of ''0'')\<lparr>shown := Text check_mark\<rparr>, [])
   \<and> td_update_deferred renderers (constructor (Some [[ren_th (Some ''check'') None]]) []) 0
        (cell_of ''false'') []
       = Inr ((cell_of ''false'')\<lparr>shown := Text check_mark\<rparr>, [])
   \<and> td_update_deferred renderers (constructor (Some [[ren_th (Some ''check'') None]]) []) 0
        (cell_of []) []
       = Inr ((cell_of [])\<lparr>shown := Text cross_mark\<rparr>, [])
   \<and> td_update_deferred renderers (constructor (Some [[ren_th (Some ''check'') None]]) []) 0
        blank []
       = Inr (blank\<lparr>shown := Text cross_mark\<rparr>, [])"
proof -
  let ?t = "constructor (Some [[ren_th (Some ''check'') None]]) []"
  have ty: "td_type ?t 0 = Inr ''check''"
    by (simp add: td_type_def td_header_def header_def at_index_def constructor_def
        ren_th_def th_type_def)
  show ?thesis
    using ty check_renderer_glyph [OF ty, of "cell_of ''0''" "[]"]
      check_renderer_glyph [OF ty, of "cell_of ''false''" "[]"]
      check_renderer_glyph [OF ty, of "cell_of []" "[]"]
      check_renderer_glyph [OF ty, of blank "[]"]
    by (simp add: cell_of_def blank_def)
qed

section \<open>Import and export\<close>

text \<open>\<open>clear\<close> leaves every second row group in place: half of them, rounded down. A
  table with at most one row group is emptied, and \<open>from\<close> then leaves exactly the new
  row group, one row for each row of the data.\<close>

lemma clear_step_arith:
  "i < n \<Longrightarrow>
   (if Suc i \<le> n - 1 then Suc i + (n - 1 - Suc i) div 2 else n - 1) = i + (n - i) div 2"
  for i n :: nat
proof (cases "Suc i \<le> n - 1")
  case True
  assume "i < n"
  from True have "n - i = (n - 1 - Suc i) + 2" by simp
  then have "(n - i) div 2 = (n - 1 - Suc i) div 2 + 1" by simp
  with True show ?thesis by simp
next
  case False
  assume "i < n"
  with False have "n = Suc i" by simp
  then show ?thesis by simp
qed

lemma length_clear_loop:
  "length (clear_loop i bodies)
     = (if i \<le> length bodies then i + (length bodies - i) div 2 else length bodies)"
proof (induction i bodies rule: clear_loop.induct)
  case (1 i bodies)
  show ?case
  proof (cases "i < length bodies")
    case True
    let ?rest = "take i bodies @ drop (Suc i) bodies"
    have len: "length ?rest = length bodies - 1" using True by simp
    have "length (clear_loop i bodies) = length (clear_loop (Suc i) ?rest)"
      using True by (subst clear_loop.simps) simp
    also have "\<dots> = (if Suc i \<le> length ?rest
        then Suc i + (length ?rest - Suc i) div 2 else length ?rest)"
      using True by (rule 1)
    also have "\<dots> = i + (length bodies - i) div 2"
      unfolding len using True by (rule clear_step_arith)
    finally show ?thesis using True by simp
  next
    case False
    then have "clear_loop i bodies = bodies" by (subst clear_loop.simps) simp
    with False show ?thesis by (cases "i = length bodies") auto
  qed
qed

lemma length_clear: "length (tBodies (clear t)) = length (tBodies t) div 2"
  by (simp add: clear_def length_clear_loop)

lemma clear_one_row_group: "length (tBodies t) \<le> 1 \<Longrightarrow> tBodies (clear t) = []"
proof -
  assume "length (tBodies t) \<le> 1"
  then have "length (tBodies (clear t)) = 0" by (simp add: length_clear)
  then show ?thesis by simp
qed

lemma header_row_clear: "header_row (clear t) = header_row t"
  by (simp add: header_row_def clear_def)

lemma from_arr_one_row_group:
  assumes "header_row t = Inr (Some cells)" and "length (tBodies t) \<le> 1"
  shows "from_arr imps arr t
     = (case traverse (import_row imps (map th_name cells) (map th_type cells)) arr of
          Inl e \<Rightarrow> Inl e
        | Inr tbody \<Rightarrow> Inr (t\<lparr>tBodies := [tbody]\<rparr>))"
proof -
  have "tBodies (clear t) = []" using assms(2) by (rule clear_one_row_group)
  moreover have "clear t\<lparr>tBodies := bs\<rparr> = t\<lparr>tBodies := bs\<rparr>" for bs
    by (simp add: clear_def)
  ultimately show ?thesis
    using assms(1) by (simp add: from_arr_def header_row_clear Let_def split: sum.splits)
qed

text \<open>The value a new cell gets, and what \<open>to_array\<close> returns for such a cell: the
  stored string as it is when the column's type has no exporter, and the truthiness of
  the entry for a check column.\<close>

lemma import_array_cell_unregistered:
  "importer_for imps column_types idx = None \<Longrightarrow>
   import_array_cell imps column_types idx v
     = Inr (createElement_td\<lparr>value_attr := Some (String_js (nullish_or v (JStr [])))\<rparr>)"
  by (simp add: import_array_cell_def imported_value_def set_value_def)

lemma import_array_cell_registered:
  "importer_for imps column_types idx = Some (Own importer) \<Longrightarrow>
   import_array_cell imps column_types idx v
     = Inr (createElement_td\<lparr>value_attr := Some (String_js (importer v))\<rparr>)"
  by (simp add: import_array_cell_def imported_value_def set_value_def)

lemma import_object_cell_unnamed:
  "import_object_cell imps column_types row idx None = Inr createElement_td"
  by (simp add: import_object_cell_def)

lemma import_object_cell_unregistered:
  "importer_for imps column_types idx = None \<Longrightarrow>
   import_object_cell imps column_types row idx (Some key)
     = Inr (createElement_td
          \<lparr>value_attr := Some (String_js (nullish_or (get_property row key) (JStr [])))\<rparr>)"
  by (simp add: import_object_cell_def imported_value_def set_value_def)

lemma import_object_cell_registered:
  "importer_for imps column_types idx = Some (Own importer) \<Longrightarrow>
   import_object_cell imps column_types row idx (Some key)
     = Inr (createElement_td\<lparr>value_attr := Some (String_js (importer (get_property row key)))\<rparr>)"
  by (simp add: import_object_cell_def imported_value_def set_value_def)

lemma export_imported_cell_raw:
  assumes "td_type t idx = Inr ty" and "get_handler exps ty = None"
    and "importer_for imps column_types idx = None"
  shows "export_cell exps t idx
           (createElement_td\<lparr>value_attr := Some (String_js (nullish_or v (JStr [])))\<rparr>)
     = Inr (Value (JStr (String_js (nullish_or v (JStr [])))))"
  using assms
  by (simp add: export_cell_def cell_type_def cell_value_def td_value_def property_key_def
      createElement_td_def)

lemma import_check_truthy: "String_js (import_check v) \<noteq> [] \<longleftrightarrow> truthy v"
  by (simp add: import_check_def String_js_def)

lemma export_imported_cell_check:
  assumes "td_type t idx = Inr ''check''"
  shows "export_cell exporters t idx
           (createElement_td\<lparr>value_attr := Some (String_js (import_check v))\<rparr>)
     = Inr (Value (JBool (truthy v)))"
  using assms
  by (simp add: export_cell_def cell_type_def property_key_def get_handler_def exporters_def
      export_check_def createElement_td_def import_check_truthy)

text \<open>
  Claim C6 says that \<open>from(rows)\<close> first removes all existing body content. On a table
  with two row groups it does not: the second one stays, before the new row group.
\<close>

theorem from_keeps_second_row_group:
  "map_sum id tBodies
     (from_arr importers [ArrayRow [JStr ''new'']]
        (constructor (Some [[ren_th None None]]) [[[cell_of ''old1'']], [[cell_of ''old2'']]]))
   = Inr [[[cell_of ''old2'']], [[cell_of ''new'']]]"
  by code_simp

text \<open>
  Claim C5 says that \<open>to_array()\<close> right after \<open>from(D)\<close> yields the entries of \<open>D\<close>,
  exported. It does not for every \<open>D\<close> that \<open>from\<close> accepts: on a table with two row
  groups the result also holds a row that was there before, and for a row of \<open>D\<close> longer
  than the header row \<open>to_array\<close> throws, the cell past the header having no type.
\<close>

theorem to_array_after_from_is_not_the_data:
  "from_then_to_array importers exporters [ArrayRow [JStr ''x'']]
     (constructor (Some [[ren_th None None]]) [[[cell_of ''old1'']], [[cell_of ''old2'']]])
   = Inr [[Value (JStr ''old2'')], [Value (JStr ''x'')]]
   \<and> from_then_to_array importers exporters [ArrayRow [JStr ''a'', JStr ''b'']]
     (constructor (Some [[ren_th None None]]) [])
   = Inl TypeError"
  by code_simp

section \<open>Changes of the header row\<close>

text \<open>For a single mutation that adds or removes an element, the update starts at the
  column after the mutation's previous element sibling, and at column 0 when there is
  none.\<close>

lemma first_update_column_single:
  assumes "list_ex is_element (addedNodes m @ removedNodes m)"
  shows "previousSibling m = None \<Longrightarrow> first_update_column row_nodes [m] = 0"
    and "previousSibling m = Some p \<Longrightarrow> is_element p \<Longrightarrow>
         indexOf (filter is_element row_nodes) p = int k \<Longrightarrow>
         first_update_column row_nodes [m] = enat (Suc k)"
  using assms
  by (simp_all add: first_update_column_def min_index_def zero_enat_def)

text \<open>
  Claim C7 says that for every batch the update starts at the earliest changed column
  and covers no column before it. For a batch that removes the last two of four header
  cells, the fourth first, the earliest change is at column 2; the code enqueues an
  update from column 0, the removed third cell no longer being found in the row.
\<close>

theorem header_batch_updates_from_first_column:
  "update_regions
     (on_thead_tr_children_changed [element 1, element 2]
        [\<lparr>addedNodes = [], removedNodes = [element 4], previousSibling = Some (element 3)\<rparr>,
         \<lparr>addedNodes = [], removedNodes = [element 3], previousSibling = Some (element 2)\<rparr>]
        (constructor (Some [[ren_th None None, ren_th None None]]) []))
   = [\<lparr>row_start = 0, column_start = 0, row_end = \<infinity>, column_end = \<infinity>\<rparr>]"
  by code_simp

end
